theory Spec2Isabelle
  imports Complex_Main "HOL-Library.Word"
begin

text \<open>
  The camera controllers of the repository, as functions on an explicit controller
  state: the colour checks on a frame (\<open>_has_true_color\<close>, the check inside
  \<open>test_true_color\<close>, \<open>_check_color\<close>, \<open>_is_grayscale_disguised_as_color\<close>), the
  negotiation of \<open>NativeColorArducamController.connect\<close>, the capture loop, \<open>get_frame\<close>
  and \<open>stop\<close> of \<open>RobustArducamController\<close>, and \<open>set_focus\<close>. The definitions come
  first, the properties after them.
\<close>

section \<open>Frames\<close>

text \<open>
  A frame is the numpy array that \<open>cap.read()\<close> hands back: \<open>frame.shape\<close> is
  \<open>(h, w)\<close> for a two-dimensional array and \<open>(h, w, c)\<close> for a three-dimensional one,
  and every component is a \<open>uint8\<close>. The field \<open>channels\<close> is \<open>None\<close> when
  \<open>len(frame.shape) = 2\<close> and \<open>Some c\<close> when the shape is \<open>(h, w, c)\<close>;
  \<open>px frame y x c\<close> is the component \<open>frame[y, x][c]\<close>, read only inside the shape.
  \<open>frame.copy()\<close> yields an array of equal content, so it is the identity on this type.
\<close>

type_synonym u8 = "8 word"

record frame =
  frame_height :: nat
  frame_width :: nat
  channels :: "nat option"
  px :: "nat \<Rightarrow> nat \<Rightarrow> nat \<Rightarrow> u8"

type_synonym pixel = "u8 \<times> u8 \<times> u8"

text \<open>\<open>b, g, r = frame[y, x]\<close>\<close>

definition pixel_at :: "frame \<Rightarrow> nat \<Rightarrow> nat \<Rightarrow> pixel" where
  "pixel_at frame y x = (px frame y x 0, px frame y x 1, px frame y x 2)"

text \<open>
  The components unpacked from \<open>frame[y, x]\<close> are numpy \<open>uint8\<close> scalars: \<open>r - g\<close> and
  \<open>r + g + b\<close> stay in \<open>uint8\<close> and wrap modulo 256 (numpy only warns), and \<open>abs\<close> of
  an unsigned scalar is the scalar itself.
\<close>

definition abs_u8 :: "u8 \<Rightarrow> u8" where
  "abs_u8 a = a"

section \<open>The colour checks\<close>

subsection \<open>\<open>NativeColorArducamController._has_true_color\<close>\<close>

text \<open>Lines 97 to 104: the test on one sampled pixel.\<close>

definition has_true_color_pixel :: "pixel \<Rightarrow> bool" where
  "has_true_color_pixel p =
     (case p of (b, g, r) \<Rightarrow>
        let diff_rg = abs_u8 (r - g);
            diff_rb = abs_u8 (r - b);
            diff_gb = abs_u8 (g - b)
        in diff_rg > 10 \<or> diff_rb > 10 \<or> diff_gb > 10)"

definition has_true_color :: "frame \<Rightarrow> bool" where
  "has_true_color frame =
     (if channels frame \<noteq> Some 3 then False
      else
        let h = frame_height frame; w = frame_width frame;
            sample_points =
              [(w div 4, h div 4), (3 * w div 4, h div 4),
               (w div 4, 3 * h div 4), (3 * w div 4, 3 * h div 4),
               (w div 2, h div 2)];
            color_pixels =
              length (filter (\<lambda>(x, y). x < w \<and> y < h \<and> has_true_color_pixel (pixel_at frame y x))
                        sample_points)
        in color_pixels \<ge> 2)"

subsection \<open>The inline check of \<open>test_true_color\<close> (\<^verbatim>\<open>true_color_test.py\<close>)\<close>

text \<open>Lines 66 to 79: the test on one sampled pixel; \<open>pixel_sum\<close> is a \<open>uint8\<close> too.\<close>

definition test_true_color_pixel :: "pixel \<Rightarrow> bool" where
  "test_true_color_pixel p =
     (case p of (b, g, r) \<Rightarrow>
        let diff_rg = abs_u8 (r - g);
            diff_rb = abs_u8 (r - b);
            diff_gb = abs_u8 (g - b);
            max_diff = max diff_rg (max diff_rb diff_gb);
            pixel_sum = r + g + b
        in max_diff > 25 \<and> 50 < unat pixel_sum \<and> unat pixel_sum < 650)"

text \<open>Lines 53 to 81: whether one frame is counted in \<open>true_color_frames\<close>.\<close>

definition test_true_color_frame :: "frame \<Rightarrow> bool" where
  "test_true_color_frame frame =
     (if channels frame = Some 3 then
        let h = frame_height frame; w = frame_width frame;
            sample_points =
              [(w div 4, h div 4), (w div 2, h div 4), (3 * w div 4, h div 4),
               (w div 4, h div 2), (w div 2, h div 2), (3 * w div 4, h div 2),
               (w div 4, 3 * h div 4), (w div 2, 3 * h div 4), (3 * w div 4, 3 * h div 4)];
            color_points =
              length (filter (\<lambda>(x, y). x < w \<and> y < h \<and> test_true_color_pixel (pixel_at frame y x))
                        sample_points)
        in color_points \<ge> 3
      else False)"

subsection \<open>\<open>ArducamColorForce._check_color\<close>\<close>

text \<open>Lines 97 to 101: the test on one sampled pixel.\<close>

definition check_color_pixel :: "pixel \<Rightarrow> bool" where
  "check_color_pixel p =
     (case p of (b, g, r) \<Rightarrow>
        abs_u8 (r - g) > 20 \<or> abs_u8 (r - b) > 20 \<or> abs_u8 (g - b) > 20)"

datatype py_error = ValueError

text \<open>
  Python's \<open>range(start, stop, step)\<close> for natural arguments; a step of zero raises
  \<open>ValueError\<close>.
\<close>

definition py_range :: "nat \<Rightarrow> nat \<Rightarrow> nat \<Rightarrow> py_error + nat list" where
  "py_range start stop step =
     (if step = 0 then Inl ValueError
      else Inr (map (\<lambda>i. start + i * step) [0..<(stop - start + step - 1) div step]))"

definition check_color :: "frame \<Rightarrow> py_error + bool" where
  "check_color frame =
     (if channels frame \<noteq> Some 3 then Inr False
      else
        let h = frame_height frame; w = frame_width frame in
        case py_range (h div 4) (3 * h div 4) (h div 8) of
          Inl e \<Rightarrow> Inl e
        | Inr ys \<Rightarrow>
            (if ys = [] then Inr False
             else case py_range (w div 4) (3 * w div 4) (w div 8) of
               Inl e \<Rightarrow> Inl e
             | Inr xs \<Rightarrow>
                 Inr (length (filter (\<lambda>(y, x). x < w \<and> y < h \<and> check_color_pixel (pixel_at frame y x))
                                (List.product ys xs)) \<ge> 3)))"

subsection \<open>\<open>TrueColorArducamController._is_grayscale_disguised_as_color\<close>\<close>

text \<open>
  \<open>np.mean(np.abs(b.astype(float) - g.astype(float)))\<close> is the sum of the absolute
  differences of two channels over all pixels, divided by the number of pixels. The sum
  is an integer that a double holds exactly, so \<open>mean < 5.0\<close> is \<open>sum < 5 * h * w\<close>.
  On a three-channel frame without pixels \<open>cv2.split\<close> gives nothing to unpack into
  \<open>b, g, r\<close>, and the assignment raises \<open>ValueError\<close>.
\<close>

definition channel_diff_sum :: "frame \<Rightarrow> nat \<Rightarrow> nat \<Rightarrow> int" where
  "channel_diff_sum frame c1 c2 =
     sum_list (map (\<lambda>(y, x). \<bar>int (unat (px frame y x c1)) - int (unat (px frame y x c2))\<bar>)
                 (List.product [0..<frame_height frame] [0..<frame_width frame]))"

definition is_grayscale_disguised_as_color :: "frame \<Rightarrow> py_error + bool" where
  "is_grayscale_disguised_as_color frame =
     (if channels frame \<noteq> Some 3 then Inr False
      else if frame_height frame * frame_width frame = 0 then Inl ValueError
      else
        let n = int (frame_height frame * frame_width frame);
            diff_bg = channel_diff_sum frame 0 1;
            diff_br = channel_diff_sum frame 0 2;
            diff_gr = channel_diff_sum frame 1 2;
            is_grayscale = (diff_bg < 5 * n \<and> diff_br < 5 * n \<and> diff_gr < 5 * n)
        in Inr is_grayscale)"

subsection \<open>Verdicts\<close>

text \<open>
  The code has no verdict type: a frame is TrueColor when \<open>_has_true_color\<close> is true,
  GrayscaleDisguisedAsColor when \<open>_is_grayscale_disguised_as_color\<close> is true, and
  Grayscale otherwise. Where the second check raises, there is no verdict but the error.
\<close>

datatype ColorVerdict = TrueColor | Grayscale | GrayscaleDisguisedAsColor

definition classify :: "frame \<Rightarrow> py_error + ColorVerdict" where
  "classify frame =
     (if has_true_color frame then Inr TrueColor
      else case is_grayscale_disguised_as_color frame of
             Inl e \<Rightarrow> Inl e
           | Inr True \<Rightarrow> Inr GrayscaleDisguisedAsColor
           | Inr False \<Rightarrow> Inr Grayscale)"

section \<open>The camera behind \<open>self.cap\<close>\<close>

text \<open>
  The controllers reach the camera only through \<open>cv2.VideoCapture\<close>: opening a capture,
  \<open>isOpened\<close>, \<open>set\<close>, \<open>get\<close>, \<open>read\<close> and \<open>release\<close>. OpenCV is not part of the
  repository, so these calls are parameters: a driver gives, for a state \<open>'d\<close> of the
  camera subsystem, what each call returns and the state it leaves. \<open>set\<close>, \<open>get\<close> and
  \<open>read\<close> may raise (the controllers wrap them in \<open>try\<close>); a raise is \<open>Inl CvError\<close>.
  \<open>read\<close> returns \<open>Some frame\<close> when \<open>ret and frame is not None\<close> holds, else \<open>None\<close>.
  Property values are the doubles of OpenCV, taken as reals.
\<close>

datatype cap_prop =
  CAP_PROP_FRAME_WIDTH | CAP_PROP_FRAME_HEIGHT | CAP_PROP_FPS | CAP_PROP_FOURCC
  | CAP_PROP_BUFFERSIZE | CAP_PROP_AUTOFOCUS | CAP_PROP_FOCUS

datatype backend = CAP_ANY | CAP_MSMF

datatype cv_error = CvError

record 'd driver =
  drv_open :: "nat \<Rightarrow> backend \<Rightarrow> 'd \<Rightarrow> 'd"
  drv_isOpened :: "'d \<Rightarrow> bool"
  drv_set :: "cap_prop \<Rightarrow> real \<Rightarrow> 'd \<Rightarrow> (cv_error + bool) \<times> 'd"
  drv_get :: "cap_prop \<Rightarrow> 'd \<Rightarrow> cv_error + real"
  drv_read :: "'d \<Rightarrow> (cv_error + frame option) \<times> 'd"
  drv_release :: "'d \<Rightarrow> 'd"

text \<open>
  What a controller does to the outside is kept as a list of events, oldest first:
  the calls on the capture, the sleeps (in milliseconds) and the frames stored in
  \<open>current_frame\<close>. \<open>EvOpen\<close> also notes whether the new capture is opened.
\<close>

datatype event =
  EvOpen nat backend bool
  | EvSet cap_prop real
  | EvGet cap_prop
  | EvRead "cv_error + frame option"
  | EvRelease
  | EvSleep nat
  | EvPublish frame

section \<open>The controller object\<close>

text \<open>
  The fields of \<open>__init__\<close>. \<open>cap\<close> says that \<open>self.cap\<close> is not \<open>None\<close>; the capture it
  refers to lives in \<open>dev\<close>. The lock and the thread object are left out: the calls of
  one controller are run one after the other, and \<open>capture_thread.join\<close> only waits.
  Console output is not modelled.
\<close>

record 'd controller =
  camera_id :: nat
  cap :: bool
  is_running :: bool
  current_frame :: "frame option"
  current_mode :: string
  dev :: 'd
  trace :: "event list"

definition init :: "nat \<Rightarrow> 'd \<Rightarrow> 'd controller" where
  "init cid d =
     \<lparr>camera_id = cid, cap = False, is_running = False, current_frame = None,
      current_mode = [], dev = d, trace = []\<rparr>"

definition log :: "event \<Rightarrow> 'd controller \<Rightarrow> 'd controller" where
  "log e st = st\<lparr>trace := trace st @ [e]\<rparr>"

text \<open>\<open>self.cap = cv2.VideoCapture(self.camera_id, backend)\<close>\<close>

definition VideoCapture :: "'d driver \<Rightarrow> backend \<Rightarrow> 'd controller \<Rightarrow> 'd controller" where
  "VideoCapture drv be st =
     (let d = drv_open drv (camera_id st) be (dev st)
      in log (EvOpen (camera_id st) be (drv_isOpened drv d)) (st\<lparr>cap := True, dev := d\<rparr>))"

definition cap_set ::
  "'d driver \<Rightarrow> cap_prop \<Rightarrow> real \<Rightarrow> 'd controller \<Rightarrow> (cv_error + bool) \<times> 'd controller" where
  "cap_set drv p v st =
     (case drv_set drv p v (dev st) of (r, d) \<Rightarrow> (r, log (EvSet p v) (st\<lparr>dev := d\<rparr>)))"

definition cap_get :: "'d driver \<Rightarrow> cap_prop \<Rightarrow> 'd controller \<Rightarrow> (cv_error + real) \<times> 'd controller" where
  "cap_get drv p st = (drv_get drv p (dev st), log (EvGet p) st)"

definition cap_read :: "'d driver \<Rightarrow> 'd controller \<Rightarrow> (cv_error + frame option) \<times> 'd controller" where
  "cap_read drv st =
     (case drv_read drv (dev st) of (r, d) \<Rightarrow> (r, log (EvRead r) (st\<lparr>dev := d\<rparr>)))"

definition cap_release :: "'d driver \<Rightarrow> 'd controller \<Rightarrow> 'd controller" where
  "cap_release drv st = log EvRelease (st\<lparr>dev := drv_release drv (dev st)\<rparr>)"

text \<open>\<open>time.sleep(ms / 1000)\<close>\<close>

definition sleep :: "nat \<Rightarrow> 'd controller \<Rightarrow> 'd controller" where
  "sleep ms st = log (EvSleep ms) st"

subsection \<open>\<open>get_frame\<close>\<close>

definition get_frame :: "'d controller \<Rightarrow> bool \<times> frame option" where
  "get_frame st =
     (case current_frame st of Some frame \<Rightarrow> (True, Some frame) | None \<Rightarrow> (False, None))"

subsection \<open>\<open>set_focus\<close>\<close>

text \<open>
  \<open>RobustArducamController.set_focus\<close>; the methods of the same name in
  \<^verbatim>\<open>native_color_arducam.py\<close> and \<^verbatim>\<open>true_color_arducam.py\<close> have the same body.
  Any exception inside the \<open>try\<close> gives \<open>False\<close>.
\<close>

definition set_focus :: "'d driver \<Rightarrow> real \<Rightarrow> 'd controller \<Rightarrow> bool \<times> 'd controller" where
  "set_focus drv focus_value st =
     (if cap st \<and> drv_isOpened drv (dev st) then
        (case cap_set drv CAP_PROP_AUTOFOCUS 0 st of
           (Inl e, st1) \<Rightarrow> (False, st1)
         | (Inr _, st1) \<Rightarrow>
             (case cap_set drv CAP_PROP_FOCUS focus_value st1 of
                (Inl e, st2) \<Rightarrow> (False, st2)
              | (Inr result, st2) \<Rightarrow>
                  (case cap_get drv CAP_PROP_FOCUS (sleep 100 st2) of
                     (Inl e, st3) \<Rightarrow> (False, st3)
                   | (Inr actual_focus, st3) \<Rightarrow> (result, st3))))
      else (False, st))"

text \<open>
  \<open>ArducamController.set_focus\<close> (\<^verbatim>\<open>arducam_controller.py\<close>): no \<open>try\<close>, and the read-back
  only after a write that reported success.
\<close>

definition ArducamController_set_focus ::
  "'d driver \<Rightarrow> real \<Rightarrow> 'd controller \<Rightarrow> (cv_error + bool) \<times> 'd controller" where
  "ArducamController_set_focus drv focus_value st =
     (if \<not> cap st \<or> \<not> drv_isOpened drv (dev st) then (Inr False, st)
      else
        (case cap_set drv CAP_PROP_AUTOFOCUS 0 st of
           (Inl e, st1) \<Rightarrow> (Inl e, st1)
         | (Inr _, st1) \<Rightarrow>
             (case cap_set drv CAP_PROP_FOCUS focus_value st1 of
                (Inl e, st2) \<Rightarrow> (Inl e, st2)
              | (Inr result, st2) \<Rightarrow>
                  (if result then
                     (case cap_get drv CAP_PROP_FOCUS (sleep 100 st2) of
                        (Inl e, st3) \<Rightarrow> (Inl e, st3)
                      | (Inr actual_focus, st3) \<Rightarrow> (Inr result, st3))
                   else (Inr result, st2)))))"

subsection \<open>\<open>RobustArducamController\<close>: the capture loop and \<open>stop\<close>\<close>

definition start_capture :: "'d controller \<Rightarrow> 'd controller" where
  "start_capture st = st\<lparr>is_running := True\<rparr>"

definition max_failures :: nat where
  "max_failures = 10"

text \<open>\<open>with self.frame_lock: self.current_frame = frame.copy()\<close>\<close>

definition publish :: "frame \<Rightarrow> 'd controller \<Rightarrow> 'd controller" where
  "publish frame st = log (EvPublish frame) (st\<lparr>current_frame := Some frame\<rparr>)"

text \<open>
  One turn of \<open>while self.is_running\<close> in \<open>_capture_loop\<close>, from the test of the
  condition to the end of the body, on the controller and the local
  \<open>consecutive_failures\<close>. \<open>Exited\<close>: the loop has been left (the condition was false,
  or a \<open>break\<close>). An exception in the body goes to the \<open>except\<close> clause, which counts a
  failure and sleeps, and the loop goes on.
\<close>

datatype loop_status = Looping | Exited

definition capture_iteration ::
  "'d driver \<Rightarrow> 'd controller \<Rightarrow> nat \<Rightarrow> loop_status \<times> 'd controller \<times> nat" where
  "capture_iteration drv st consecutive_failures =
     (if \<not> is_running st then (Exited, st, consecutive_failures)
      else if cap st \<and> drv_isOpened drv (dev st) then
        (case cap_read drv st of
           (Inl e, st1) \<Rightarrow> (Looping, sleep 100 st1, consecutive_failures + 1)
         | (Inr (Some frame), st1) \<Rightarrow> (Looping, sleep 1 (publish frame st1), 0)
         | (Inr None, st1) \<Rightarrow>
             (if consecutive_failures + 1 \<ge> max_failures
              then (Exited, st1, consecutive_failures + 1)
              else (Looping, sleep 1 (sleep 100 st1), consecutive_failures + 1)))
      else (Exited, st, consecutive_failures))"

text \<open>
  The loop can run for ever, so it is run for at most \<open>n\<close> turns: the status \<open>Looping\<close>
  in the result says that the loop has not been left after \<open>n\<close> turns, and the state is
  the one a reader of the controller finds at that moment.
\<close>

fun capture_loop_from ::
  "'d driver \<Rightarrow> nat \<Rightarrow> 'd controller \<Rightarrow> nat \<Rightarrow> loop_status \<times> 'd controller \<times> nat" where
  "capture_loop_from drv 0 st consecutive_failures = (Looping, st, consecutive_failures)"
| "capture_loop_from drv (Suc n) st consecutive_failures =
     (case capture_iteration drv st consecutive_failures of
        (Looping, st1, consecutive_failures1) \<Rightarrow> capture_loop_from drv n st1 consecutive_failures1
      | (Exited, st1, consecutive_failures1) \<Rightarrow> (Exited, st1, consecutive_failures1))"

text \<open>\<open>_capture_loop\<close> starts with \<open>consecutive_failures = 0\<close>.\<close>

definition capture_loop :: "'d driver \<Rightarrow> nat \<Rightarrow> 'd controller \<Rightarrow> loop_status \<times> 'd controller \<times> nat" where
  "capture_loop drv n st = capture_loop_from drv n st 0"

definition stop :: "'d driver \<Rightarrow> 'd controller \<Rightarrow> 'd controller" where
  "stop drv st =
     (let st1 = st\<lparr>is_running := False\<rparr>
      in if cap st1 then cap_release drv st1 else st1)"

subsection \<open>\<open>NativeColorArducamController.connect\<close>\<close>

text \<open>
  \<open>cv2.VideoWriter_fourcc(c1, c2, c3, c4)\<close> packs the four character codes, the first
  in the lowest byte.
\<close>

definition VideoWriter_fourcc :: "char \<Rightarrow> char \<Rightarrow> char \<Rightarrow> char \<Rightarrow> int" where
  "VideoWriter_fourcc c1 c2 c3 c4 =
     of_char c1 + of_char c2 * 2 ^ 8 + of_char c3 * 2 ^ 16 + of_char c4 * 2 ^ 24"

type_synonym strategy = "string \<times> int \<times> int \<times> int"

definition strategies :: "strategy list" where
  "strategies =
     [(''4656x3496 (16MP)'', 4656, 3496, VideoWriter_fourcc CHR ''M'' CHR ''J'' CHR ''P'' CHR ''G''),
      (''3840x2160 (4K)'', 3840, 2160, VideoWriter_fourcc CHR ''M'' CHR ''J'' CHR ''P'' CHR ''G''),
      (''1920x1080 (FHD)'', 1920, 1080, VideoWriter_fourcc CHR ''M'' CHR ''J'' CHR ''P'' CHR ''G''),
      (''1280x720 (HD)'', 1280, 720, VideoWriter_fourcc CHR ''M'' CHR ''J'' CHR ''P'' CHR ''G''),
      (''640x480 (VGA)'', 640, 480, VideoWriter_fourcc CHR ''M'' CHR ''J'' CHR ''P'' CHR ''G''),
      (''640x480 YUV'', 640, 480, VideoWriter_fourcc CHR ''Y'' CHR ''U'' CHR ''Y'' CHR ''2''),
      (''320x240'', 320, 240, VideoWriter_fourcc CHR ''M'' CHR ''J'' CHR ''P'' CHR ''G'')]"

text \<open>\<open>_configure_focus\<close>: two writes, a sleep and two reads that are only printed.\<close>

definition configure_focus :: "'d driver \<Rightarrow> 'd controller \<Rightarrow> (cv_error + unit) \<times> 'd controller" where
  "configure_focus drv st =
     (case cap_set drv CAP_PROP_AUTOFOCUS 0 st of
        (Inl e, st1) \<Rightarrow> (Inl e, st1)
      | (Inr _, st1) \<Rightarrow>
          (case cap_set drv CAP_PROP_FOCUS 100 st1 of
             (Inl e, st2) \<Rightarrow> (Inl e, st2)
           | (Inr _, st2) \<Rightarrow>
               (case cap_get drv CAP_PROP_AUTOFOCUS (sleep 100 st2) of
                  (Inl e, st3) \<Rightarrow> (Inl e, st3)
                | (Inr autofocus, st3) \<Rightarrow>
                    (case cap_get drv CAP_PROP_FOCUS st3 of
                       (Inl e, st4) \<Rightarrow> (Inl e, st4)
                     | (Inr focus, st4) \<Rightarrow> (Inr (), st4)))))"

text \<open>A run of \<open>cap.set\<close> calls, in order; the results are not looked at.\<close>

fun cap_set_all ::
  "'d driver \<Rightarrow> (cap_prop \<times> real) list \<Rightarrow> 'd controller \<Rightarrow> (cv_error + unit) \<times> 'd controller" where
  "cap_set_all drv [] st = (Inr (), st)"
| "cap_set_all drv ((p, v) # pvs) st =
     (case cap_set drv p v st of
        (Inl e, st1) \<Rightarrow> (Inl e, st1)
      | (Inr _, st1) \<Rightarrow> cap_set_all drv pvs st1)"

text \<open>
  \<open>for i in range(n)\<close>: read a frame and count it in \<open>color_frames\<close> when it was read and
  \<open>_has_true_color\<close> holds.
\<close>

fun probe_frames ::
  "'d driver \<Rightarrow> nat \<Rightarrow> nat \<Rightarrow> 'd controller \<Rightarrow> (cv_error + nat) \<times> 'd controller" where
  "probe_frames drv 0 color_frames st = (Inr color_frames, st)"
| "probe_frames drv (Suc n) color_frames st =
     (case cap_read drv st of
        (Inl e, st1) \<Rightarrow> (Inl e, st1)
      | (Inr None, st1) \<Rightarrow> probe_frames drv n color_frames st1
      | (Inr (Some frame), st1) \<Rightarrow>
          probe_frames drv n (if has_true_color frame then color_frames + 1 else color_frames) st1)"

text \<open>Python's \<open>int(x)\<close> of a float truncates towards zero; \<open>str\<close> of an integer.\<close>

definition py_int :: "real \<Rightarrow> int" where
  "py_int x = (if x \<ge> 0 then \<lfloor>x\<rfloor> else \<lceil>x\<rceil>)"

function str_nat :: "nat \<Rightarrow> string" where
  "str_nat n =
     (if n < 10 then [char_of (48 + n)] else str_nat (n div 10) @ [char_of (48 + n mod 10)])"
  by pat_completeness auto
termination
  by (relation "measure id") auto

declare str_nat.simps [simp del]

definition str_int :: "int \<Rightarrow> string" where
  "str_int i = (if i < 0 then CHR ''-'' # str_nat (nat (- i)) else str_nat (nat i))"

text \<open>
  The body of \<open>for mode_name, width, height, fourcc in strategies\<close>: \<open>Inr True\<close> is
  \<open>return True\<close>, \<open>Inr False\<close> is the end of the body (the next strategy is tried), and
  \<open>Inl\<close> an exception, which \<open>connect\<close> does not catch.
\<close>

definition try_strategy ::
  "'d driver \<Rightarrow> strategy \<Rightarrow> 'd controller \<Rightarrow> (cv_error + bool) \<times> 'd controller" where
  "try_strategy drv strategy st =
     (case strategy of (mode_name, width, height, fourcc) \<Rightarrow>
        let st0 = VideoCapture drv CAP_MSMF st in
        if drv_isOpened drv (dev st0) then
          (case cap_set drv CAP_PROP_FOURCC (of_int fourcc) st0 of
             (Inl e, st1) \<Rightarrow> (Inl e, st1)
           | (Inr _, st1) \<Rightarrow>
               (case cap_set_all drv
                       [(CAP_PROP_FRAME_WIDTH, of_int width), (CAP_PROP_FRAME_HEIGHT, of_int height),
                        (CAP_PROP_FPS, 30), (CAP_PROP_BUFFERSIZE, 1)] (sleep 100 st1) of
                  (Inl e, st2) \<Rightarrow> (Inl e, st2)
                | (Inr _, st2) \<Rightarrow>
                    (case probe_frames drv 5 0 (sleep 1000 st2) of
                       (Inl e, st3) \<Rightarrow> (Inl e, st3)
                     | (Inr color_frames, st3) \<Rightarrow>
                         (if color_frames \<ge> 3 then
                            (case cap_get drv CAP_PROP_FRAME_WIDTH st3 of
                               (Inl e, st4) \<Rightarrow> (Inl e, st4)
                             | (Inr actual_w, st4) \<Rightarrow>
                                 (case cap_get drv CAP_PROP_FRAME_HEIGHT st4 of
                                    (Inl e, st5) \<Rightarrow> (Inl e, st5)
                                  | (Inr actual_h, st5) \<Rightarrow>
                                      (case configure_focus drv
                                              (st5\<lparr>current_mode :=
                                                     mode_name @ '' ('' @ str_int (py_int actual_w)
                                                     @ ''x'' @ str_int (py_int actual_h) @ '')''\<rparr>) of
                                         (Inl e, st6) \<Rightarrow> (Inl e, st6)
                                       | (Inr _, st6) \<Rightarrow> (Inr True, st6))))
                          else (Inr False, cap_release drv st3)))))
        else (Inr False, sleep 500 st0))"

fun connect_loop ::
  "'d driver \<Rightarrow> strategy list \<Rightarrow> 'd controller \<Rightarrow> (cv_error + bool) \<times> 'd controller" where
  "connect_loop drv [] st = (Inr False, st)"
| "connect_loop drv (strategy # rest) st =
     (case try_strategy drv strategy st of
        (Inr False, st1) \<Rightarrow> connect_loop drv rest st1
      | (Inr True, st1) \<Rightarrow> (Inr True, st1)
      | (Inl e, st1) \<Rightarrow> (Inl e, st1))"

definition connect :: "'d driver \<Rightarrow> 'd controller \<Rightarrow> (cv_error + bool) \<times> 'd controller" where
  "connect drv st = connect_loop drv strategies st"

section \<open>Notions used in the statements\<close>

subsection \<open>The specification's colourful pixel\<close>

text \<open>
  Following the specification's words: the pairwise absolute differences and the sum of
  the three components are those of the numbers 0 to 255 that the components stand for;
  a pixel is colourful when the largest difference exceeds \<open>T_diff\<close> and the sum lies
  strictly between \<open>low\<close> and \<open>high\<close>.
\<close>

definition true_diff :: "u8 \<Rightarrow> u8 \<Rightarrow> int" where
  "true_diff a b = \<bar>uint a - uint b\<bar>"

definition max_true_diff :: "pixel \<Rightarrow> int" where
  "max_true_diff p =
     (case p of (c0, c1, c2) \<Rightarrow> max (true_diff c0 c1) (max (true_diff c0 c2) (true_diff c1 c2)))"

definition spec_colorful :: "int \<Rightarrow> int \<Rightarrow> int \<Rightarrow> pixel \<Rightarrow> bool" where
  "spec_colorful T_diff low high p =
     (case p of (c0, c1, c2) \<Rightarrow>
        max_true_diff p > T_diff \<and> low < uint c0 + uint c1 + uint c2
        \<and> uint c0 + uint c1 + uint c2 < high)"

text \<open>Every component inside the shape of the frame has the value \<open>v\<close>.\<close>

definition all_pixels_equal :: "frame \<Rightarrow> u8 \<Rightarrow> bool" where
  "all_pixels_equal frame v =
     (\<forall>y<frame_height frame. \<forall>x<frame_width frame.
        \<forall>c<(case channels frame of None \<Rightarrow> 1 | Some n \<Rightarrow> n). px frame y x c = v)"

subsection \<open>Reading a trace\<close>

text \<open>The property writes, the frames stored, and the frames read successfully, in order.\<close>

fun writes :: "event list \<Rightarrow> (cap_prop \<times> real) list" where
  "writes [] = []"
| "writes (EvSet p v # es) = (p, v) # writes es"
| "writes (e # es) = writes es"

fun published :: "event list \<Rightarrow> frame list" where
  "published [] = []"
| "published (EvPublish f # es) = f # published es"
| "published (e # es) = published es"

fun frames_read :: "event list \<Rightarrow> frame list" where
  "frames_read [] = []"
| "frames_read (EvRead (Inr (Some f)) # es) = f # frames_read es"
| "frames_read (e # es) = frames_read es"

definition is_read :: "event \<Rightarrow> bool" where
  "is_read e = (case e of EvRead r \<Rightarrow> True | _ \<Rightarrow> False)"

definition is_open :: "event \<Rightarrow> bool" where
  "is_open e = (case e of EvOpen cid be ok \<Rightarrow> True | _ \<Rightarrow> False)"

definition quiet :: "event \<Rightarrow> bool" where
  "quiet e = (case e of EvSet p v \<Rightarrow> True | EvGet p \<Rightarrow> True | EvSleep ms \<Rightarrow> True | _ \<Rightarrow> False)"

text \<open>
  Whether an opened capture is still held at the end of a trace: an open that succeeded
  takes one, a release gives it back. The first argument is the answer before the trace.
\<close>

fun holds_handle :: "bool \<Rightarrow> event list \<Rightarrow> bool" where
  "holds_handle h [] = h"
| "holds_handle h (EvOpen cid be ok # es) = holds_handle ok es"
| "holds_handle h (EvRelease # es) = holds_handle False es"
| "holds_handle h (e # es) = holds_handle h es"

text \<open>What a call adds to the trace while it leaves \<open>cap\<close> and \<open>camera_id\<close> alone.\<close>

definition extends :: "'d controller \<Rightarrow> 'd controller \<Rightarrow> event list \<Rightarrow> bool" where
  "extends st st' es =
     (trace st' = trace st @ es \<and> cap st' = cap st \<and> camera_id st' = camera_id st)"

text \<open>The state of the camera after \<open>k\<close> reads.\<close>

definition after_reads :: "'d driver \<Rightarrow> nat \<Rightarrow> 'd \<Rightarrow> 'd" where
  "after_reads drv k d = ((\<lambda>d. snd (drv_read drv d)) ^^ k) d"

text \<open>A driver none of whose calls raises.\<close>

definition never_raises :: "'d driver \<Rightarrow> bool" where
  "never_raises drv =
     ((\<forall>p v d. \<not> isl (fst (drv_set drv p v d))) \<and> (\<forall>p d. \<not> isl (drv_get drv p d))
      \<and> (\<forall>d. \<not> isl (fst (drv_read drv d))))"

text \<open>\<open>get_frame\<close> gives the last frame stored, or nothing when none was stored.\<close>

definition buffer_latest :: "'d controller \<Rightarrow> bool" where
  "buffer_latest st =
     (get_frame st = (case published (trace st) of
                        [] \<Rightarrow> (False, None)
                      | f # fs \<Rightarrow> (True, Some (last (f # fs)))))"

subsection \<open>A simulated camera\<close>

text \<open>
  A camera for concrete runs: the script \<open>sim_opens\<close> says which of the coming opens
  succeed, \<open>sim_reads\<close> what the coming reads return (a failed read once the script is
  used up), and a focus write is clamped to \<open>sim_focus_max\<close> and reported as done.
\<close>

record sim =
  sim_opened :: bool
  sim_opens :: "bool list"
  sim_reads :: "frame option list"
  sim_focus :: real
  sim_focus_max :: real

definition sim_driver :: "sim driver" where
  "sim_driver =
     \<lparr>drv_open = (\<lambda>cid be d. case sim_opens d of
                      [] \<Rightarrow> d\<lparr>sim_opened := False\<rparr>
                    | ok # oks \<Rightarrow> d\<lparr>sim_opened := ok, sim_opens := oks\<rparr>),
      drv_isOpened = sim_opened,
      drv_set = (\<lambda>p v d. if p = CAP_PROP_FOCUS
                           then (Inr True, d\<lparr>sim_focus := min v (sim_focus_max d)\<rparr>)
                           else (Inr True, d)),
      drv_get = (\<lambda>p d. Inr (if p = CAP_PROP_FOCUS then sim_focus d else 0)),
      drv_read = (\<lambda>d. case sim_reads d of
                         [] \<Rightarrow> (Inr None, d)
                       | r # rs \<Rightarrow> (Inr r, d\<lparr>sim_reads := rs\<rparr>)),
      drv_release = (\<lambda>d. d\<lparr>sim_opened := False\<rparr>)\<rparr>"

definition sim_camera :: "bool list \<Rightarrow> frame option list \<Rightarrow> sim" where
  "sim_camera opens reads =
     \<lparr>sim_opened = False, sim_opens = opens, sim_reads = reads, sim_focus = 0, sim_focus_max = 200\<rparr>"

text \<open>A controller before \<open>connect\<close>, and one whose capture is already open.\<close>

definition sim_controller :: "bool list \<Rightarrow> frame option list \<Rightarrow> sim controller" where
  "sim_controller opens reads = init 1 (sim_camera opens reads)"

definition sim_session :: "frame option list \<Rightarrow> sim controller" where
  "sim_session reads = (init 1 ((sim_camera [] reads)\<lparr>sim_opened := True\<rparr>))\<lparr>cap := True\<rparr>"

definition blank_frame :: "nat \<Rightarrow> nat \<Rightarrow> nat option \<Rightarrow> u8 \<Rightarrow> frame" where
  "blank_frame h w ch v = \<lparr>frame_height = h, frame_width = w, channels = ch, px = (\<lambda>y x c. v)\<rparr>"

definition red_frame :: frame where
  "red_frame = \<lparr>frame_height = 4, frame_width = 4, channels = Some 3,
                px = (\<lambda>y x c. if c = 2 then 200 else 0)\<rparr>"

definition gray_frame :: frame where
  "gray_frame = blank_frame 4 4 (Some 3) 90"

text \<open>
  The same camera with a fault: every read raises, and so does a write of the focus.
\<close>

definition faulty_driver :: "sim driver" where
  "faulty_driver =
     sim_driver\<lparr>drv_set := (\<lambda>p v d. if p = CAP_PROP_FOCUS then (Inl CvError, d) else (Inr True, d)),
                drv_read := (\<lambda>d. (Inl CvError, d))\<rparr>"

definition sim_story :: "sim controller" where
  "sim_story =
     sim_controller [False, True, True]
       [Some gray_frame, Some gray_frame, None, Some gray_frame, Some gray_frame,
        Some red_frame, Some red_frame, Some gray_frame, Some red_frame, Some red_frame]"

section \<open>Properties of the colour checks\<close>

lemma pixel_at_uniform:
  "all_pixels_equal frame v \<Longrightarrow> channels frame = Some 3 \<Longrightarrow> y < frame_height frame
   \<Longrightarrow> x < frame_width frame \<Longrightarrow> pixel_at frame y x = (v, v, v)"
  by (simp add: all_pixels_equal_def pixel_at_def)

lemma gray_pixel_not_color:
  "\<not> has_true_color_pixel (v, v, v)" "\<not> test_true_color_pixel (v, v, v)"
  by (simp_all add: has_true_color_pixel_def test_true_color_pixel_def abs_u8_def)

lemma uniform_has_true_color:
  assumes "all_pixels_equal frame v"
  shows "\<not> has_true_color frame"
proof (cases "channels frame = Some 3")
  case True
  have "\<not> (x < frame_width frame \<and> y < frame_height frame
            \<and> has_true_color_pixel (pixel_at frame y x))" for x y
    using pixel_at_uniform [OF assms True] gray_pixel_not_color(1) by metis
  then have E: "filter (\<lambda>(x, y). x < frame_width frame \<and> y < frame_height frame
                            \<and> has_true_color_pixel (pixel_at frame y x)) pts = []" for pts
    by (auto simp: filter_empty_conv)
  show ?thesis unfolding has_true_color_def Let_def E by simp
next
  case False
  then show ?thesis by (simp add: has_true_color_def)
qed

lemma uniform_test_true_color:
  assumes "all_pixels_equal frame v"
  shows "\<not> test_true_color_frame frame"
proof (cases "channels frame = Some 3")
  case True
  have "\<not> (x < frame_width frame \<and> y < frame_height frame
            \<and> test_true_color_pixel (pixel_at frame y x))" for x y
    using pixel_at_uniform [OF assms True] gray_pixel_not_color(2) by metis
  then have E: "filter (\<lambda>(x, y). x < frame_width frame \<and> y < frame_height frame
                            \<and> test_true_color_pixel (pixel_at frame y x)) pts = []" for pts
    by (auto simp: filter_empty_conv)
  show ?thesis unfolding test_true_color_frame_def Let_def E by simp
next
  case False
  then show ?thesis by (simp add: test_true_color_frame_def)
qed

text \<open>
  Claim C7. A frame that is black everywhere, or white everywhere, is never found to have
  true colour, whatever its number of channels and its size: \<open>_has_true_color\<close> is
  false, the frame is not counted by \<open>test_true_color\<close>, and the verdict is not
  TrueColor.
\<close>

theorem blank_frame_never_true_color:
  "all_pixels_equal frame 0 \<or> all_pixels_equal frame 255 \<Longrightarrow>
   \<not> has_true_color frame \<and> \<not> test_true_color_frame frame \<and> classify frame \<noteq> Inr TrueColor"
  using uniform_has_true_color uniform_test_true_color
  by (auto simp: classify_def split: sum.splits bool.splits)

theorem blank_frame_never_true_color_witness:
  "all_pixels_equal (blank_frame 4 6 (Some 3) 255) 255
   \<and> \<not> has_true_color (blank_frame 4 6 (Some 3) 255)
   \<and> \<not> test_true_color_frame (blank_frame 4 6 (Some 3) 255)
   \<and> classify (blank_frame 4 6 (Some 3) 255) \<noteq> Inr TrueColor
   \<and> all_pixels_equal (blank_frame 3 5 None 0) 0
   \<and> \<not> has_true_color (blank_frame 3 5 None 0)
   \<and> \<not> test_true_color_frame (blank_frame 3 5 None 0)
   \<and> classify (blank_frame 3 5 None 0) \<noteq> Inr TrueColor"
proof -
  have w: "all_pixels_equal (blank_frame 4 6 (Some 3) 255) 255"
    and b: "all_pixels_equal (blank_frame 3 5 None 0) 0"
    by (simp_all add: all_pixels_equal_def blank_frame_def)
  from blank_frame_never_true_color [of "blank_frame 4 6 (Some 3) 255"]
    blank_frame_never_true_color [of "blank_frame 3 5 None 0"] w b
  show ?thesis by simp
qed

text \<open>
  Claim C8. A frame with one channel (a two-dimensional array, or a third dimension of
  size one) is grayscale whatever its pixels are: \<open>_has_true_color\<close> and
  \<open>_is_grayscale_disguised_as_color\<close> both return \<open>False\<close> at their first test, so
  the verdict is Grayscale, and it is the same for every content \<open>p\<close> of the frame: no
  pixel is looked at.
\<close>

theorem one_channel_is_grayscale:
  "channels frame = None \<or> channels frame = Some 1 \<Longrightarrow>
   \<not> has_true_color (frame\<lparr>px := p\<rparr>)
   \<and> is_grayscale_disguised_as_color (frame\<lparr>px := p\<rparr>) = Inr False
   \<and> classify (frame\<lparr>px := p\<rparr>) = Inr Grayscale"
  by (auto simp: has_true_color_def is_grayscale_disguised_as_color_def classify_def)

theorem one_channel_is_grayscale_witness:
  "channels (blank_frame 2 2 (Some 1) 7) = Some 1
   \<and> classify (blank_frame 2 2 (Some 1) 7\<lparr>px := (\<lambda>y x c. 200)\<rparr>) = Inr Grayscale
   \<and> \<not> has_true_color (blank_frame 2 2 (Some 1) 7\<lparr>px := (\<lambda>y x c. 200)\<rparr>)
   \<and> is_grayscale_disguised_as_color (blank_frame 2 2 (Some 1) 7\<lparr>px := (\<lambda>y x c. 200)\<rparr>) = Inr False
   \<and> channels (blank_frame 2 2 None 7) = None
   \<and> classify (blank_frame 2 2 None 7\<lparr>px := (\<lambda>y x c. of_nat (x + y))\<rparr>) = Inr Grayscale"
proof -
  have h: "channels (blank_frame 2 2 (Some 1) 7) = Some 1" "channels (blank_frame 2 2 None 7) = None"
    by (simp_all add: blank_frame_def)
  from one_channel_is_grayscale [of "blank_frame 2 2 (Some 1) 7" "\<lambda>y x c. 200"]
    one_channel_is_grayscale [of "blank_frame 2 2 None 7" "\<lambda>y x c. of_nat (x + y)"] h
  show ?thesis by simp
qed

subsection \<open>Arithmetic on the components\<close>

lemma uint_sub_u8:
  "uint (a - b :: u8) = (if uint b \<le> uint a then uint a - uint b else uint a - uint b + 256)"
  using uint_sub_if' [of a b] by simp

lemma gt_u8: "(k < (a :: u8)) = (uint k < uint a)"
  by (simp add: word_less_def)

lemma uint_max_u8: "uint (max a (b :: u8)) = max (uint a) (uint b)"
  by (simp add: max_def word_le_def)

lemma computed_diff_mod: "uint (abs_u8 (a - b)) = (uint a - uint b) mod 256"
  by (simp add: abs_u8_def uint_word_ariths)

lemma wrapped_below: "a < b \<Longrightarrow> uint b - uint a > 256 - T \<Longrightarrow> uint (abs_u8 (a - b)) < T"
  by (auto simp: abs_u8_def uint_sub_u8 word_less_def)

lemma nowrap_has_true_color_pixel:
  "b \<le> g \<Longrightarrow> g \<le> r \<Longrightarrow> has_true_color_pixel (b, g, r) = (10 < max_true_diff (b, g, r))"
  by (auto simp: has_true_color_pixel_def abs_u8_def max_true_diff_def true_diff_def gt_u8
      uint_sub_u8 word_le_def Let_def)

lemma nowrap_check_color_pixel:
  "b \<le> g \<Longrightarrow> g \<le> r \<Longrightarrow> check_color_pixel (b, g, r) = (20 < max_true_diff (b, g, r))"
  by (auto simp: check_color_pixel_def abs_u8_def max_true_diff_def true_diff_def gt_u8
      uint_sub_u8 word_le_def Let_def)

lemma uint_sum3:
  assumes "uint r + uint g + uint b < 256"
  shows "uint (r + g + b :: u8) = uint r + uint g + uint b"
proof -
  have nn: "0 \<le> uint r" "0 \<le> uint g" "0 \<le> uint b" by simp_all
  have "uint (r + g + b) = (uint r + uint g + uint b) mod 256"
    by (simp add: uint_word_ariths mod_simps)
  also have "\<dots> = uint r + uint g + uint b"
    using nn assms by (intro mod_pos_pos_trivial) linarith+
  finally show ?thesis .
qed

lemma nowrap_test_true_color_pixel:
  assumes "b \<le> g" "g \<le> r" "uint r + uint g + uint b < 256"
  shows "test_true_color_pixel (b, g, r) = spec_colorful 25 50 650 (b, g, r)"
proof -
  have le: "uint b \<le> uint g" "uint g \<le> uint r"
    using assms by (simp_all add: word_le_def)
  have d: "uint (r - g) = uint r - uint g" "uint (r - b) = uint r - uint b"
    "uint (g - b) = uint g - uint b"
    using le by (simp_all add: uint_sub_u8)
  have m: "(25 < max (r - g) (max (r - b) (g - b))) = (25 < max_true_diff (b, g, r))"
    using le by (simp add: gt_u8 uint_max_u8 d max_true_diff_def true_diff_def)
  have s: "int (unat (r + g + b)) = uint b + uint g + uint r"
    using uint_sum3 [OF assms(3)] by simp
  have s50: "(50 < unat (r + g + b)) = (50 < uint b + uint g + uint r)"
    using s by linarith
  have s650: "(unat (r + g + b) < 650) = (uint b + uint g + uint r < 650)"
    using s by linarith
  show ?thesis
    by (simp add: test_true_color_pixel_def spec_colorful_def Let_def abs_u8_def m s50 s650)
qed

lemma blue_dominant:
  "r \<le> g \<Longrightarrow> g \<le> b \<Longrightarrow>
   has_true_color_pixel (b, g, r)
     = (\<exists>d \<in> set [true_diff r g, true_diff r b, true_diff g b]. 0 < d \<and> d < 246)"
  by (auto simp: has_true_color_pixel_def abs_u8_def true_diff_def gt_u8 uint_sub_u8 word_le_def
      Let_def)

lemma blue_dominant_check:
  "r \<le> g \<Longrightarrow> g \<le> b \<Longrightarrow>
   check_color_pixel (b, g, r)
     = (\<exists>d \<in> set [true_diff r g, true_diff r b, true_diff g b]. 0 < d \<and> d < 236)"
  by (auto simp: check_color_pixel_def abs_u8_def true_diff_def gt_u8 uint_sub_u8 word_le_def
      Let_def)

lemma check_color_small_frame:
  "channels frame = Some 3 \<Longrightarrow> frame_height frame < 8 \<Longrightarrow> check_color frame = Inl ValueError"
  by (simp add: check_color_def py_range_def Let_def)

text \<open>
  Claim C4, as the code has it. The three checks compute \<open>r - g\<close>, \<open>r - b\<close> and
  \<open>g - b\<close>; on a pixel with \<open>b \<le> g \<le> r\<close> none of them wraps and they are the true
  differences. On such a pixel \<open>_has_true_color\<close> counts it when the largest difference
  exceeds 10 and \<open>_check_color\<close> when it exceeds 20, with no bound on the sum of the
  components; the check of \<open>test_true_color\<close> counts it, when the sum of the components
  stays below 256, if and only if the largest difference exceeds 25 and the sum lies
  strictly between 50 and 650.
\<close>

theorem colorful_without_wrap:
  assumes "b \<le> g" and "g \<le> r"
  shows "has_true_color_pixel (b, g, r) = (10 < max_true_diff (b, g, r))
       \<and> check_color_pixel (b, g, r) = (20 < max_true_diff (b, g, r))
       \<and> (uint r + uint g + uint b < 256 \<longrightarrow>
            test_true_color_pixel (b, g, r) = spec_colorful 25 50 650 (b, g, r))"
  using nowrap_has_true_color_pixel [OF assms] nowrap_check_color_pixel [OF assms]
    nowrap_test_true_color_pixel [OF assms] by simp

theorem colorful_without_wrap_witness:
  "(10::u8) \<le> 40 \<and> (40::u8) \<le> 90 \<and> uint (90::u8) + uint (40::u8) + uint (10::u8) < 256
   \<and> has_true_color_pixel (10, 40, 90) \<and> check_color_pixel (10, 40, 90)
   \<and> test_true_color_pixel (10, 40, 90) \<and> spec_colorful 25 50 650 (10, 40, 90)"
proof -
  have h: "(10::u8) \<le> 40" "(40::u8) \<le> 90" "uint (90::u8) + uint (40::u8) + uint (10::u8) < 256"
    by simp_all
  have m: "max_true_diff (10, 40, 90) = 80" "spec_colorful 25 50 650 (10, 40, 90)"
    by (simp_all add: max_true_diff_def true_diff_def spec_colorful_def)
  from colorful_without_wrap [OF h(1,2)] h m show ?thesis by simp
qed

text \<open>
  Against claim C4 as stated: the pixel \<open>(b, g, r) = (0, 0, 11)\<close>, whose components sum
  to 11, is counted as colourful by \<open>_has_true_color\<close>, and \<open>(0, 0, 21)\<close> by
  \<open>_check_color\<close>; with the bounds 50 and 650 of \<open>test_true_color\<close> on the sum neither
  is colourful in the specification's sense.
\<close>

theorem near_black_pixel_counted_counterexample:
  "has_true_color_pixel (0, 0, 11) \<and> check_color_pixel (0, 0, 21)
   \<and> \<not> spec_colorful 10 50 650 (0, 0, 11) \<and> \<not> spec_colorful 20 50 650 (0, 0, 21)"
  by (simp add: has_true_color_pixel_def check_color_pixel_def abs_u8_def spec_colorful_def
      max_true_diff_def true_diff_def)

text \<open>
  Claim C9, as the code has it. A difference is computed on \<open>uint8\<close> components, so
  \<open>abs(x - y)\<close> is \<open>(x - y) mod 256\<close>; when \<open>x < y\<close> and the true difference \<open>y - x\<close>
  exceeds \<open>256 - T\<close>, the computed one is below \<open>T\<close>. The subtractions are \<open>r - g\<close>,
  \<open>r - b\<close> and \<open>g - b\<close>: on a pixel with \<open>r \<le> g \<le> b\<close> each of them wraps or is zero,
  and the pixel is counted by \<open>_has_true_color\<close> only when some true difference lies
  strictly between 0 and 246 (236 for \<open>_check_color\<close>).
\<close>

theorem wrapped_difference:
  "uint (abs_u8 (x - y)) = (uint x - uint y) mod 256
   \<and> (x < y \<and> 256 - T < uint y - uint x \<longrightarrow> uint (abs_u8 (x - y)) < T)
   \<and> (r \<le> g \<and> g \<le> b \<longrightarrow>
        has_true_color_pixel (b, g, r)
          = (\<exists>d \<in> set [true_diff r g, true_diff r b, true_diff g b]. 0 < d \<and> d < 246)
        \<and> check_color_pixel (b, g, r)
          = (\<exists>d \<in> set [true_diff r g, true_diff r b, true_diff g b]. 0 < d \<and> d < 236))"
  using computed_diff_mod [of x y] wrapped_below [of x y T] blue_dominant [of r g b]
    blue_dominant_check [of r g b] by blast

text \<open>Pure blue, \<open>(b, g, r) = (255, 0, 0)\<close>, is not counted.\<close>

theorem wrapped_difference_witness:
  "(0::u8) < 255 \<and> 256 - 10 < uint (255::u8) - uint (0::u8) \<and> uint (abs_u8 ((0::u8) - 255)) = 1
   \<and> (0::u8) \<le> 0 \<and> (0::u8) \<le> 255
   \<and> \<not> has_true_color_pixel (255, 0, 0) \<and> \<not> check_color_pixel (255, 0, 0)"
proof -
  have h: "(0::u8) < 255 \<and> 256 - 10 < uint (255::u8) - uint (0::u8)"
    "(0::u8) \<le> 0 \<and> (0::u8) \<le> 255"
    by simp_all
  have d: "true_diff 0 0 = 0" "true_diff 0 255 = 255" by (simp_all add: true_diff_def)
  note w = wrapped_difference [where x = 0 and y = 255 and T = 10 and r = 0 and g = 0 and b = 255]
  from w h d show ?thesis by simp
qed

text \<open>
  Against claim C9 as stated: pure red, \<open>(b, g, r) = (0, 0, 255)\<close>, has two channels
  whose true difference 255 exceeds \<open>256 - 10\<close>, and all three checks count it as
  colourful, because \<open>r - g\<close> does not wrap.
\<close>

theorem pure_red_counted_counterexample:
  "256 - 10 < true_diff 255 0 \<and> abs_u8 (255 - 0) = 255 \<and> has_true_color_pixel (0, 0, 255)
   \<and> check_color_pixel (0, 0, 255) \<and> test_true_color_pixel (0, 0, 255)"
  by (simp add: has_true_color_pixel_def check_color_pixel_def test_true_color_pixel_def abs_u8_def
      true_diff_def)

text \<open>Pure green, \<open>(b, g, r) = (0, 255, 0)\<close>, is counted too: \<open>g - b\<close> does not wrap.\<close>

lemma pure_green_counted:
  "has_true_color_pixel (0, 255, 0) \<and> check_color_pixel (0, 255, 0)"
  by (simp add: has_true_color_pixel_def check_color_pixel_def abs_u8_def)

section \<open>Properties of \<open>set_focus\<close>\<close>

lemma set_focus_normal:
  assumes "cap st" and "drv_isOpened drv (dev st)"
    and "drv_set drv CAP_PROP_AUTOFOCUS 0 (dev st) = (Inr a, d1)"
    and "drv_set drv CAP_PROP_FOCUS v d1 = (Inr result, d2)"
    and "drv_get drv CAP_PROP_FOCUS d2 = Inr actual_focus"
  shows "set_focus drv v st =
           (result, st\<lparr>dev := d2,
                        trace := trace st @ [EvSet CAP_PROP_AUTOFOCUS 0, EvSet CAP_PROP_FOCUS v,
                                             EvSleep 100, EvGet CAP_PROP_FOCUS]\<rparr>)
         \<and> ArducamController_set_focus drv v st =
           (Inr result,
            st\<lparr>dev := d2,
               trace := trace st @ [EvSet CAP_PROP_AUTOFOCUS 0, EvSet CAP_PROP_FOCUS v]
                        @ (if result then [EvSleep 100, EvGet CAP_PROP_FOCUS] else [])\<rparr>)"
  using assms
  by (simp add: set_focus_def ArducamController_set_focus_def cap_set_def cap_get_def sleep_def
      log_def)

lemma set_focus_raised:
  assumes "cap st" and "drv_isOpened drv (dev st)"
    and "drv_set drv CAP_PROP_AUTOFOCUS 0 (dev st) = (ra, d1)"
    and "drv_set drv CAP_PROP_FOCUS v d1 = (rf, d2)"
    and "isl ra \<or> isl rf \<or> isl (drv_get drv CAP_PROP_FOCUS d2)"
  shows "fst (set_focus drv v st) = False"
proof (cases ra)
  case (Inl e)
  with assms(1-3) show ?thesis by (simp add: set_focus_def cap_set_def)
next
  case ra: (Inr a)
  show ?thesis
  proof (cases rf)
    case (Inl e)
    with ra assms(1-4) show ?thesis by (simp add: set_focus_def cap_set_def log_def)
  next
    case rf: (Inr result)
    with ra assms(5) obtain e where g: "drv_get drv CAP_PROP_FOCUS d2 = Inl e"
      by (cases "drv_get drv CAP_PROP_FOCUS d2") auto
    with ra rf assms(1-4) show ?thesis
      by (simp add: set_focus_def cap_set_def cap_get_def sleep_def log_def)
  qed
qed

text \<open>
  Claim C1, as the code has it. On a session whose capture is open, \<open>set_focus\<close> writes
  autofocus 0, writes the focus value, sleeps 100 ms and reads the focus back. When none
  of the three calls raises, what it returns is the flag that the focus write returned,
  whatever the value read back, and \<open>ArducamController.set_focus\<close> returns the same
  flag, skipping the sleep and the read-back when the write returned \<open>False\<close>. When
  one of the three calls raises, \<open>set_focus\<close> returns \<open>False\<close>.
\<close>

theorem set_focus_returns_write_result:
  assumes "cap st" and "drv_isOpened drv (dev st)"
    and "drv_set drv CAP_PROP_AUTOFOCUS 0 (dev st) = (ra, d1)"
    and "drv_set drv CAP_PROP_FOCUS v d1 = (rf, d2)"
  shows "(ra = Inr a \<and> rf = Inr result \<and> drv_get drv CAP_PROP_FOCUS d2 = Inr actual_focus \<longrightarrow>
           set_focus drv v st =
             (result, st\<lparr>dev := d2,
                          trace := trace st @ [EvSet CAP_PROP_AUTOFOCUS 0, EvSet CAP_PROP_FOCUS v,
                                               EvSleep 100, EvGet CAP_PROP_FOCUS]\<rparr>)
           \<and> ArducamController_set_focus drv v st =
             (Inr result,
              st\<lparr>dev := d2,
                 trace := trace st @ [EvSet CAP_PROP_AUTOFOCUS 0, EvSet CAP_PROP_FOCUS v]
                          @ (if result then [EvSleep 100, EvGet CAP_PROP_FOCUS] else [])\<rparr>))
       \<and> (isl ra \<or> isl rf \<or> isl (drv_get drv CAP_PROP_FOCUS d2) \<longrightarrow>
            fst (set_focus drv v st) = False)"
proof (intro conjI impI)
  assume h: "ra = Inr a \<and> rf = Inr result \<and> drv_get drv CAP_PROP_FOCUS d2 = Inr actual_focus"
  then have a: "drv_set drv CAP_PROP_AUTOFOCUS 0 (dev st) = (Inr a, d1)"
    and f: "drv_set drv CAP_PROP_FOCUS v d1 = (Inr result, d2)"
    and g: "drv_get drv CAP_PROP_FOCUS d2 = Inr actual_focus"
    using assms(3,4) by simp_all
  from set_focus_normal [OF assms(1,2) a f g]
  show "set_focus drv v st =
             (result, st\<lparr>dev := d2,
                          trace := trace st @ [EvSet CAP_PROP_AUTOFOCUS 0, EvSet CAP_PROP_FOCUS v,
                                               EvSleep 100, EvGet CAP_PROP_FOCUS]\<rparr>)"
    and "ArducamController_set_focus drv v st =
             (Inr result,
              st\<lparr>dev := d2,
                 trace := trace st @ [EvSet CAP_PROP_AUTOFOCUS 0, EvSet CAP_PROP_FOCUS v]
                          @ (if result then [EvSleep 100, EvGet CAP_PROP_FOCUS] else [])\<rparr>)"
    by blast+
next
  assume "isl ra \<or> isl rf \<or> isl (drv_get drv CAP_PROP_FOCUS d2)"
  from set_focus_raised [OF assms this] show "fst (set_focus drv v st) = False" .
qed

text \<open>
  A device that takes the value 120 as it is: the result is \<open>True\<close>. A device whose
  focus write raises: the result is \<open>False\<close>.
\<close>

theorem set_focus_returns_write_result_witness:
  "cap (sim_session []) \<and> drv_isOpened sim_driver (dev (sim_session []))
   \<and> set_focus sim_driver 120 (sim_session []) =
       (True, (sim_session [])\<lparr>dev := (dev (sim_session []))\<lparr>sim_focus := 120\<rparr>,
                trace := [EvSet CAP_PROP_AUTOFOCUS 0, EvSet CAP_PROP_FOCUS 120,
                          EvSleep 100, EvGet CAP_PROP_FOCUS]\<rparr>)
   \<and> drv_isOpened faulty_driver (dev (sim_session []))
   \<and> isl (fst (drv_set faulty_driver CAP_PROP_FOCUS 120 (dev (sim_session []))))
   \<and> fst (set_focus faulty_driver 120 (sim_session [])) = False"
proof -
  have c: "cap (sim_session [])" and o: "drv_isOpened sim_driver (dev (sim_session []))"
    and o': "drv_isOpened faulty_driver (dev (sim_session []))"
    by (simp_all add: sim_session_def init_def sim_driver_def faulty_driver_def)
  have a: "drv_set sim_driver CAP_PROP_AUTOFOCUS 0 (dev (sim_session []))
             = (Inr True, dev (sim_session []))"
    by (simp add: sim_driver_def)
  have f: "drv_set sim_driver CAP_PROP_FOCUS 120 (dev (sim_session []))
             = (Inr True, (dev (sim_session []))\<lparr>sim_focus := 120\<rparr>)"
    by (simp add: sim_driver_def sim_session_def init_def sim_camera_def)
  have g: "drv_get sim_driver CAP_PROP_FOCUS ((dev (sim_session []))\<lparr>sim_focus := 120\<rparr>) = Inr 120"
    by (simp add: sim_driver_def)
  have a': "drv_set faulty_driver CAP_PROP_AUTOFOCUS 0 (dev (sim_session []))
             = (Inr True, dev (sim_session []))"
    and f': "drv_set faulty_driver CAP_PROP_FOCUS 120 (dev (sim_session []))
             = (Inl CvError, dev (sim_session []))"
    by (simp_all add: faulty_driver_def)
  have t: "trace (sim_session []) = []" by (simp add: sim_session_def init_def)
  have normal: "set_focus sim_driver 120 (sim_session []) =
       (True, (sim_session [])\<lparr>dev := (dev (sim_session []))\<lparr>sim_focus := 120\<rparr>,
                trace := trace (sim_session []) @ [EvSet CAP_PROP_AUTOFOCUS 0, EvSet CAP_PROP_FOCUS 120,
                          EvSleep 100, EvGet CAP_PROP_FOCUS]\<rparr>)"
    using set_focus_returns_write_result [OF c o a f, where a = True and result = True
      and actual_focus = 120] g by blast
  have raised: "fst (set_focus faulty_driver 120 (sim_session [])) = False"
    using set_focus_returns_write_result [OF c o' a' f'] by simp
  have i: "isl (fst (drv_set faulty_driver CAP_PROP_FOCUS 120 (dev (sim_session []))))"
    using f' by simp
  show ?thesis
    using c o o' i raised normal unfolding t by simp
qed

text \<open>
  Against claim C1 as stated: the simulated device clamps a focus of 250 to 200 and
  reports the write as done; \<open>set_focus\<close> returns \<open>True\<close> although the value read back,
  200, is not the one asked for. The clamped value stays applied.
\<close>

theorem set_focus_clamped_counterexample:
  "fst (set_focus sim_driver 250 (sim_session [])) = True
   \<and> drv_get sim_driver CAP_PROP_FOCUS (dev (snd (set_focus sim_driver 250 (sim_session []))))
       = Inr 200"
  by (simp add: set_focus_def cap_set_def cap_get_def sleep_def log_def sim_driver_def
      sim_session_def init_def sim_camera_def)

text \<open>
  Claim C10. On a session whose capture is open, the first thing \<open>set_focus\<close> does is to
  write autofocus 0, whatever the state of the device; the only other property it
  writes is the focus, with the value asked for, and it writes it unless the autofocus
  write raised. The same holds for \<open>ArducamController.set_focus\<close>.
\<close>

theorem set_focus_writes_autofocus_first:
  assumes "cap st" and "drv_isOpened drv (dev st)"
  shows "(\<exists>es. trace (snd (set_focus drv v st)) = trace st @ EvSet CAP_PROP_AUTOFOCUS 0 # es
            \<and> writes es = (if isl (fst (drv_set drv CAP_PROP_AUTOFOCUS 0 (dev st))) then []
                           else [(CAP_PROP_FOCUS, v)]))
       \<and> (\<exists>es. trace (snd (ArducamController_set_focus drv v st))
                 = trace st @ EvSet CAP_PROP_AUTOFOCUS 0 # es
            \<and> writes es = (if isl (fst (drv_set drv CAP_PROP_AUTOFOCUS 0 (dev st))) then []
                           else [(CAP_PROP_FOCUS, v)]))"
  using assms
  by (auto simp: set_focus_def ArducamController_set_focus_def cap_set_def cap_get_def sleep_def
      log_def split: prod.splits sum.splits)

theorem set_focus_writes_autofocus_first_witness:
  "cap (sim_session []) \<and> drv_isOpened sim_driver (dev (sim_session []))
   \<and> (\<exists>es. trace (snd (set_focus sim_driver 120 (sim_session [])))
              = trace (sim_session []) @ EvSet CAP_PROP_AUTOFOCUS 0 # es
          \<and> writes es = [(CAP_PROP_FOCUS, 120)])"
proof -
  have c: "cap (sim_session [])" and o: "drv_isOpened sim_driver (dev (sim_session []))"
    by (simp_all add: sim_session_def init_def sim_driver_def)
  have a: "\<not> isl (fst (drv_set sim_driver CAP_PROP_AUTOFOCUS 0 (dev (sim_session []))))"
    by (simp add: sim_driver_def)
  from set_focus_writes_autofocus_first [OF c o, of 120] a c o show ?thesis by simp
qed

section \<open>Properties of the capture loop\<close>

lemma published_append: "published (es @ fs) = published es @ published fs"
  by (induction es rule: published.induct) simp_all

lemma capture_iteration_buffer_latest:
  assumes "buffer_latest st" and "capture_iteration drv st cf = (status, st', cf')"
  shows "buffer_latest st'"
  using assms
  by (auto simp: capture_iteration_def buffer_latest_def get_frame_def cap_read_def sleep_def
      publish_def log_def published_append
      split: if_splits prod.splits sum.splits option.splits list.splits)

lemma capture_loop_from_buffer_latest:
  "buffer_latest st \<Longrightarrow> capture_loop_from drv n st cf = (status, st', cf') \<Longrightarrow> buffer_latest st'"
proof (induction n arbitrary: st cf)
  case 0
  then show ?case by simp
next
  case (Suc n)
  obtain s st1 cf1 where it: "capture_iteration drv st cf = (s, st1, cf1)"
    by (cases "capture_iteration drv st cf") auto
  have b1: "buffer_latest st1"
    using capture_iteration_buffer_latest [OF Suc.prems(1) it] .
  show ?case
  proof (cases s)
    case Looping
    with Suc.prems(2) it have "capture_loop_from drv n st1 cf1 = (status, st', cf')" by simp
    from Suc.IH [OF b1 this] show ?thesis .
  next
    case Exited
    with Suc.prems(2) it have "st' = st1" by simp
    with b1 show ?thesis by simp
  qed
qed

text \<open>
  Claim C6. Before any frame has been stored, \<open>get_frame\<close> returns \<open>(False, None)\<close>,
  on a fresh controller in particular. After any number of turns of the capture loop,
  whether it is still running or has been left, \<open>get_frame\<close> returns the last of the
  frames the loop has stored so far, and \<open>(False, None)\<close> if it stored none.
\<close>

theorem latest_frame_wins:
  assumes "current_frame st = None" and "published (trace st) = []"
    and "capture_loop drv n (start_capture st) = (status, st', cf')"
  shows "get_frame st = (False, None) \<and> get_frame (init cid d) = (False, None)
       \<and> get_frame st' = (case published (trace st') of
                            [] \<Rightarrow> (False, None)
                          | f # fs \<Rightarrow> (True, Some (last (f # fs))))"
proof -
  have b: "buffer_latest (start_capture st)"
    using assms(1,2) by (simp add: buffer_latest_def get_frame_def start_capture_def)
  from capture_loop_from_buffer_latest [OF b assms(3) [unfolded capture_loop_def]]
  show ?thesis using assms(1) by (simp add: buffer_latest_def get_frame_def init_def)
qed

lemmas loop_eval =
  capture_loop_def capture_iteration_def start_capture_def sim_session_def
  init_def sim_camera_def sim_driver_def cap_read_def sleep_def publish_def log_def max_failures_def
  eval_nat_numeral

lemma sim_run3:
  "\<exists>st' cf'. capture_loop sim_driver 3 (start_capture (sim_session [Some red_frame, None, Some gray_frame]))
     = (Looping, st', cf') \<and> published (trace st') = [red_frame, gray_frame]"
  by (simp add: loop_eval)

theorem latest_frame_wins_witness:
  "get_frame (sim_session [Some red_frame, None, Some gray_frame]) = (False, None)
   \<and> get_frame (fst (snd (capture_loop sim_driver 3
         (start_capture (sim_session [Some red_frame, None, Some gray_frame])))))
       = (True, Some gray_frame)"
proof -
  obtain st' cf' where r: "capture_loop sim_driver 3
      (start_capture (sim_session [Some red_frame, None, Some gray_frame])) = (Looping, st', cf')"
    and p: "published (trace st') = [red_frame, gray_frame]"
    using sim_run3 by blast
  have c: "current_frame (sim_session [Some red_frame, None, Some gray_frame]) = None"
    and t: "published (trace (sim_session [Some red_frame, None, Some gray_frame])) = []"
    by (simp_all add: sim_session_def init_def)
  from latest_frame_wins [OF c t r, where cid = 1 and d = "sim_camera [] []"] p r
  show ?thesis by simp
qed

lemma after_reads_Suc: "after_reads drv (Suc k) d = after_reads drv k (snd (drv_read drv d))"
  unfolding after_reads_def by (simp only: funpow_Suc_right o_apply)

lemma after_reads_0: "after_reads drv 0 d = d"
  by (simp add: after_reads_def)

lemma failed_read_iteration:
  assumes "is_running st" and "cap st" and "drv_isOpened drv (dev st)"
    and "fst (drv_read drv (dev st)) = Inr None"
  shows "capture_iteration drv st cf =
           (if cf + 1 \<ge> max_failures
            then (Exited, log (EvRead (Inr None)) (st\<lparr>dev := snd (drv_read drv (dev st))\<rparr>), cf + 1)
            else (Looping,
                  sleep 1 (sleep 100 (log (EvRead (Inr None)) (st\<lparr>dev := snd (drv_read drv (dev st))\<rparr>))),
                  cf + 1))"
  using assms by (cases "drv_read drv (dev st)") (simp add: capture_iteration_def cap_read_def)

lemma failure_streak_run:
  assumes "is_running st" and "cap st" and "cf + m = max_failures" and "0 < m" and "m \<le> n"
    and "\<forall>k<m. drv_isOpened drv (after_reads drv k (dev st))
                \<and> fst (drv_read drv (after_reads drv k (dev st))) = Inr None"
  shows "\<exists>st' es. capture_loop_from drv n st cf = (Exited, st', max_failures)
           \<and> is_running st' \<and> cap st' \<and> current_frame st' = current_frame st
           \<and> dev st' = after_reads drv m (dev st)
           \<and> trace st' = trace st @ es \<and> count_list es EvRelease = 0
           \<and> length (filter is_read es) = m"
  using assms
proof (induction m arbitrary: st cf n)
  case 0
  then show ?case by simp
next
  case (Suc m)
  from Suc.prems(5) obtain n' where n: "n = Suc n'" by (cases n) auto
  from Suc.prems(6) have o: "drv_isOpened drv (dev st)" and f: "fst (drv_read drv (dev st)) = Inr None"
    by (auto simp: after_reads_0 dest: spec [of _ 0])
  let ?st1 = "log (EvRead (Inr None)) (st\<lparr>dev := snd (drv_read drv (dev st))\<rparr>)"
  note it = failed_read_iteration [OF Suc.prems(1,2) o f, of cf]
  show ?case
  proof (cases "m = 0")
    case True
    with Suc.prems(3) have "cf + 1 \<ge> max_failures" "cf + 1 = max_failures" by simp_all
    with it n True Suc.prems(1,2) show ?thesis
      by (simp add: log_def after_reads_Suc after_reads_0 is_read_def)
  next
    case False
    with Suc.prems(3) have lt: "\<not> cf + 1 \<ge> max_failures" by simp
    let ?st2 = "sleep 1 (sleep 100 ?st1)"
    have r2: "is_running ?st2" "cap ?st2" using Suc.prems(1,2) by (simp_all add: sleep_def log_def)
    have d2: "dev ?st2 = snd (drv_read drv (dev st))" by (simp add: sleep_def log_def)
    have c2: "(cf + 1) + m = max_failures" using Suc.prems(3) by simp
    have m0: "0 < m" using False by simp
    have n2: "m \<le> n'" using Suc.prems(5) n by simp
    have h2: "\<forall>k<m. drv_isOpened drv (after_reads drv k (dev ?st2))
                \<and> fst (drv_read drv (after_reads drv k (dev ?st2))) = Inr None"
    proof (intro allI impI)
      fix k assume "k < m"
      then have "Suc k < Suc m" by simp
      with Suc.prems(6) have "drv_isOpened drv (after_reads drv (Suc k) (dev st))
          \<and> fst (drv_read drv (after_reads drv (Suc k) (dev st))) = Inr None" by blast
      then show "drv_isOpened drv (after_reads drv k (dev ?st2))
          \<and> fst (drv_read drv (after_reads drv k (dev ?st2))) = Inr None"
        unfolding d2 after_reads_Suc .
    qed
    from Suc.IH [OF r2 c2 m0 n2 h2] obtain st' es where
      run: "capture_loop_from drv n' ?st2 (cf + 1) = (Exited, st', max_failures)"
      and props: "is_running st'" "cap st'" "current_frame st' = current_frame ?st2"
        "dev st' = after_reads drv m (dev ?st2)" "trace st' = trace ?st2 @ es"
        "count_list es EvRelease = 0" "length (filter is_read es) = m"
      by blast
    have "capture_loop_from drv n st cf = (Exited, st', max_failures)"
      using it lt run n by simp
    moreover have "current_frame st' = current_frame st"
      using props(3) by (simp add: sleep_def log_def)
    moreover have "dev st' = after_reads drv (Suc m) (dev st)"
      using props(4) unfolding d2 after_reads_Suc .
    moreover have "trace st' = trace st @ ([EvRead (Inr None), EvSleep 100, EvSleep 1] @ es)"
      using props(5) by (simp add: sleep_def log_def)
    moreover have "count_list ([EvRead (Inr None), EvSleep 100, EvSleep 1] @ es) EvRelease = 0"
      using props(6) by simp
    moreover have "length (filter is_read ([EvRead (Inr None), EvSleep 100, EvSleep 1] @ es)) = Suc m"
      using props(7) by (simp add: is_read_def)
    ultimately show ?thesis using props(1,2) by blast
  qed
qed

lemma stop_releases_once:
  "cap st \<Longrightarrow> count_list (trace (stop drv st)) EvRelease = count_list (trace st) EvRelease + 1
      \<and> \<not> is_running (stop drv st) \<and> cap (stop drv st)"
  by (simp add: stop_def cap_release_def log_def Let_def)

text \<open>
  Claim C3, as the code has it. Let the loop run on an open capture with a streak of
  \<open>cf\<close> failures so far, and let the coming reads return no frame (without raising)
  until the streak is 10. Then the loop is left at the read that brings the streak to
  10, after exactly \<open>10 - cf\<close> reads; it releases nothing, stores no frame and leaves
  \<open>is_running\<close> set. The capture is released by \<open>stop\<close>, once for each call of \<open>stop\<close>.
\<close>

theorem failure_streak_exits_without_release:
  assumes "is_running st" and "cap st" and "cf < max_failures" and "max_failures - cf \<le> n"
    and "\<forall>k<max_failures - cf.
           drv_isOpened drv (after_reads drv k (dev st))
           \<and> fst (drv_read drv (after_reads drv k (dev st))) = Inr None"
  shows "\<exists>st' es. capture_loop_from drv n st cf = (Exited, st', max_failures)
           \<and> is_running st' \<and> current_frame st' = current_frame st
           \<and> trace st' = trace st @ es
           \<and> count_list es EvRelease = 0
           \<and> length (filter is_read es) = max_failures - cf
           \<and> count_list (trace (stop drv st')) EvRelease = count_list (trace st') EvRelease + 1
           \<and> count_list (trace (stop drv (stop drv st'))) EvRelease = count_list (trace st') EvRelease + 2"
proof -
  have a: "cf + (max_failures - cf) = max_failures" "0 < max_failures - cf"
    using assms(3) by simp_all
  from failure_streak_run [OF assms(1,2) a assms(4,5)] obtain st' es where
    r: "capture_loop_from drv n st cf = (Exited, st', max_failures)"
      "is_running st'" "cap st'" "current_frame st' = current_frame st"
      "trace st' = trace st @ es" "count_list es EvRelease = 0"
      "length (filter is_read es) = max_failures - cf"
    by blast
  have s1: "count_list (trace (stop drv st')) EvRelease = count_list (trace st') EvRelease + 1"
    and c1: "cap (stop drv st')"
    using stop_releases_once [OF r(3)] by simp_all
  have s2: "count_list (trace (stop drv (stop drv st'))) EvRelease = count_list (trace st') EvRelease + 2"
    using stop_releases_once [OF c1, of drv] s1 by simp
  from r s1 s2 show ?thesis by blast
qed

lemma sim_after_reads: "sim_reads d = [] \<Longrightarrow> after_reads sim_driver k d = d"
  by (induction k) (simp_all add: after_reads_def sim_driver_def)

theorem failure_streak_exits_without_release_witness:
  "\<exists>st' es. capture_loop_from sim_driver 12 (start_capture (sim_session [])) 0 = (Exited, st', 10)
       \<and> is_running st' \<and> current_frame st' = None \<and> trace st' = es
       \<and> count_list es EvRelease = 0 \<and> length (filter is_read es) = 10
       \<and> count_list (trace (stop sim_driver st')) EvRelease = 1
       \<and> count_list (trace (stop sim_driver (stop sim_driver st'))) EvRelease = 2"
proof -
  let ?st = "start_capture (sim_session [])"
  have r: "is_running ?st" and c: "cap ?st" and f: "(0::nat) < max_failures"
    and n: "max_failures - 0 \<le> (12::nat)"
    by (simp_all add: start_capture_def sim_session_def init_def max_failures_def)
  have e: "sim_reads (dev ?st) = []"
    by (simp add: start_capture_def sim_session_def init_def sim_camera_def)
  have h: "\<forall>k<max_failures - 0.
             drv_isOpened sim_driver (after_reads sim_driver k (dev ?st))
             \<and> fst (drv_read sim_driver (after_reads sim_driver k (dev ?st))) = Inr None"
    unfolding sim_after_reads [OF e]
    by (simp add: sim_driver_def start_capture_def sim_session_def init_def sim_camera_def)
  have t: "trace ?st = []" "current_frame ?st = None"
    by (simp_all add: start_capture_def sim_session_def init_def)
  from failure_streak_exits_without_release [OF r c f n h] t show ?thesis
    by (auto simp: max_failures_def)
qed

text \<open>
  Against claim C3 as stated: on the simulated camera every read fails; the loop is
  left when the streak is 10, and at that moment the trace holds no release, the
  capture is still opened and \<open>is_running\<close> is still set.
\<close>

theorem faulted_loop_keeps_handle_counterexample:
  "fst (capture_loop sim_driver 12 (start_capture (sim_session []))) = Exited
   \<and> snd (snd (capture_loop sim_driver 12 (start_capture (sim_session [])))) = 10
   \<and> count_list (trace (fst (snd (capture_loop sim_driver 12 (start_capture (sim_session [])))))) EvRelease = 0
   \<and> drv_isOpened sim_driver (dev (fst (snd (capture_loop sim_driver 12 (start_capture (sim_session []))))))
   \<and> is_running (fst (snd (capture_loop sim_driver 12 (start_capture (sim_session [])))))"
  by (simp add: loop_eval)

section \<open>Properties of \<open>connect\<close>\<close>

lemma quiet_simps:
  "quiet (EvSet p v)" "quiet (EvGet p)" "quiet (EvSleep ms)" "\<not> quiet (EvOpen cid be ok)"
  "\<not> quiet (EvRead r)" "\<not> quiet EvRelease" "\<not> quiet (EvPublish f)"
  by (simp_all add: quiet_def)

lemma is_read_simps:
  "is_read (EvRead r)" "\<not> is_read (EvSet p v)" "\<not> is_read (EvGet p)" "\<not> is_read (EvSleep ms)"
  "\<not> is_read (EvOpen cid be ok)" "\<not> is_read EvRelease" "\<not> is_read (EvPublish f)"
  by (simp_all add: is_read_def)

lemma is_open_simps:
  "is_open (EvOpen cid be ok)" "\<not> is_open (EvSet p v)" "\<not> is_open (EvGet p)" "\<not> is_open (EvSleep ms)"
  "\<not> is_open (EvRead r)" "\<not> is_open EvRelease" "\<not> is_open (EvPublish f)"
  by (simp_all add: is_open_def)

lemma frames_read_append: "frames_read (es @ fs) = frames_read es @ frames_read fs"
  by (induction es rule: frames_read.induct) simp_all

lemma holds_handle_append: "holds_handle h (es @ fs) = holds_handle (holds_handle h es) fs"
  by (induction h es rule: holds_handle.induct) simp_all

lemma quiet_neutral:
  "list_all quiet q \<Longrightarrow> frames_read q = [] \<and> filter is_read q = [] \<and> filter is_open q = []
     \<and> holds_handle h q = h"
proof (induction q)
  case Nil
  then show ?case by simp
next
  case (Cons e q)
  then show ?case by (cases e) (simp_all add: quiet_simps is_read_simps is_open_simps)
qed

lemma reads_neutral:
  "list_all is_read rs \<Longrightarrow> filter is_read rs = rs \<and> filter is_open rs = [] \<and> holds_handle h rs = h"
proof (induction rs)
  case Nil
  then show ?case by simp
next
  case (Cons e rs)
  then show ?case by (cases e) (simp_all add: is_read_simps is_open_simps)
qed

lemma extends_trans: "extends st st1 es \<Longrightarrow> extends st1 st2 fs \<Longrightarrow> extends st st2 (es @ fs)"
  by (simp add: extends_def)

lemma cap_set_extends: "cap_set drv p v st = (r, st') \<Longrightarrow> extends st st' [EvSet p v]"
  by (auto simp: cap_set_def extends_def log_def split: prod.splits)

lemma cap_get_extends: "cap_get drv p st = (r, st') \<Longrightarrow> extends st st' [EvGet p]"
  by (auto simp: cap_get_def extends_def log_def)

lemma sleep_extends: "extends st (sleep ms st) [EvSleep ms]"
  by (simp add: sleep_def extends_def log_def)

lemma cap_set_all_extends:
  "cap_set_all drv pvs st = (r, st') \<Longrightarrow> \<exists>q. extends st st' q \<and> list_all quiet q"
proof (induction pvs arbitrary: st)
  case Nil
  then show ?case by (auto simp: extends_def)
next
  case (Cons pv pvs)
  obtain p v where pv: "pv = (p, v)" by (cases pv)
  obtain r1 st1 where s: "cap_set drv p v st = (r1, st1)" by (cases "cap_set drv p v st")
  note e1 = cap_set_extends [OF s]
  show ?case
  proof (cases r1)
    case (Inl e)
    with Cons.prems pv s have "st' = st1" by simp
    with e1 show ?thesis by (intro exI [of _ "[EvSet p v]"]) (simp add: quiet_simps)
  next
    case (Inr b)
    with Cons.prems pv s have "cap_set_all drv pvs st1 = (r, st')" by simp
    from Cons.IH [OF this] obtain q where q: "extends st1 st' q" "list_all quiet q" by blast
    from extends_trans [OF e1 q(1)] q(2) show ?thesis
      by (intro exI [of _ "[EvSet p v] @ q"]) (simp add: quiet_simps)
  qed
qed

lemma configure_focus_extends:
  "configure_focus drv st = (r, st') \<Longrightarrow> \<exists>q. extends st st' q \<and> list_all quiet q"
  by (auto simp: configure_focus_def cap_set_def cap_get_def sleep_def log_def extends_def quiet_simps
      split: prod.splits sum.splits)

lemma configure_focus_mode:
  "configure_focus drv st = (r, st') \<Longrightarrow> current_mode st' = current_mode st"
  by (auto simp: configure_focus_def cap_set_def cap_get_def sleep_def log_def
      split: prod.splits sum.splits)

lemma probe_frames_extends:
  "probe_frames drv n k st = (Inr k', st') \<Longrightarrow>
   \<exists>rs. extends st st' rs \<and> length rs = n \<and> list_all is_read rs
        \<and> k' = k + length (filter has_true_color (frames_read rs))"
proof (induction n arbitrary: k st)
  case 0
  then show ?case by (auto simp: extends_def)
next
  case (Suc n)
  obtain r1 st1 where s: "cap_read drv st = (r1, st1)" by (cases "cap_read drv st")
  then have e1: "extends st st1 [EvRead r1]"
    by (auto simp: cap_read_def extends_def log_def split: prod.splits)
  show ?case
  proof (cases r1)
    case (Inl e)
    with Suc.prems s show ?thesis by simp
  next
    case (Inr fo)
    let ?k1 = "case fo of None \<Rightarrow> k | Some frame \<Rightarrow> if has_true_color frame then k + 1 else k"
    from Suc.prems s Inr have "probe_frames drv n ?k1 st1 = (Inr k', st')"
      by (cases fo) simp_all
    from Suc.IH [OF this] obtain rs where rs: "extends st1 st' rs" "length rs = n" "list_all is_read rs"
      "k' = ?k1 + length (filter has_true_color (frames_read rs))" by blast
    from extends_trans [OF e1 rs(1)] rs(2,3,4) Inr show ?thesis
      by (intro exI [of _ "[EvRead r1] @ rs"]) (cases fo; simp add: is_read_simps)
  qed
qed

lemma try_strategy_shape:
  assumes "try_strategy drv strategy st = (Inr accepted, st')"
  shows "cap st' \<and> camera_id st' = camera_id st \<and>
     (if drv_isOpened drv (dev (VideoCapture drv CAP_MSMF st)) then
        (\<exists>q1 rs q2.
           trace st' = trace st @ [EvOpen (camera_id st) CAP_MSMF True] @ q1 @ rs
                       @ (if accepted then q2 else [EvRelease])
           \<and> list_all quiet q1 \<and> list_all quiet q2 \<and> length rs = 5 \<and> list_all is_read rs
           \<and> accepted = (3 \<le> length (filter has_true_color (frames_read rs)))
           \<and> (accepted \<longrightarrow>
                (\<exists>w h. current_mode st' = fst strategy @ '' ('' @ str_int w @ ''x'' @ str_int h @ '')'')))
      else \<not> accepted
           \<and> trace st' = trace st @ [EvOpen (camera_id st) CAP_MSMF False, EvSleep 500])"
proof -
  obtain mode_name width height fourcc where sg: "strategy = (mode_name, width, height, fourcc)"
    by (cases strategy) auto
  let ?st0 = "VideoCapture drv CAP_MSMF st"
  let ?ok = "drv_isOpened drv (dev ?st0)"
  have t0: "trace ?st0 = trace st @ [EvOpen (camera_id st) CAP_MSMF ?ok]"
    and c0: "cap ?st0" and i0: "camera_id ?st0 = camera_id st"
    by (simp_all add: VideoCapture_def log_def Let_def)
  show ?thesis
  proof (cases ?ok)
    case False
    with assms sg have "accepted = False" "st' = sleep 500 ?st0"
      by (simp_all add: try_strategy_def Let_def)
    with False t0 c0 i0 show ?thesis by (simp add: sleep_def log_def)
  next
    case True
    obtain r1 st1 where s1: "cap_set drv CAP_PROP_FOURCC (of_int fourcc) ?st0 = (r1, st1)"
      by (cases "cap_set drv CAP_PROP_FOURCC (of_int fourcc) ?st0")
    obtain r2 st2 where s2: "cap_set_all drv
        [(CAP_PROP_FRAME_WIDTH, of_int width), (CAP_PROP_FRAME_HEIGHT, of_int height),
         (CAP_PROP_FPS, 30), (CAP_PROP_BUFFERSIZE, 1)] (sleep 100 st1) = (r2, st2)"
      by (cases "cap_set_all drv
        [(CAP_PROP_FRAME_WIDTH, of_int width), (CAP_PROP_FRAME_HEIGHT, of_int height),
         (CAP_PROP_FPS, 30), (CAP_PROP_BUFFERSIZE, 1)] (sleep 100 st1)")
    obtain r3 st3 where s3: "probe_frames drv 5 0 (sleep 1000 st2) = (r3, st3)"
      by (cases "probe_frames drv 5 0 (sleep 1000 st2)")
    from assms sg True s1 obtain b1 where r1: "r1 = Inr b1"
      by (cases r1) (simp_all add: try_strategy_def Let_def)
    from assms sg True s1 r1 s2 obtain u2 where r2: "r2 = Inr u2"
      by (cases r2) (simp_all add: try_strategy_def Let_def)
    from assms sg True s1 r1 s2 r2 s3 obtain color_frames where r3: "r3 = Inr color_frames"
      by (cases r3) (simp_all add: try_strategy_def Let_def)
    note e1 = cap_set_extends [OF s1]
    from cap_set_all_extends [OF s2] obtain qa where qa: "extends (sleep 100 st1) st2 qa" "list_all quiet qa"
      by blast
    from probe_frames_extends [OF s3 [unfolded r3]] obtain rs where
      rs: "extends (sleep 1000 st2) st3 rs" "length rs = 5" "list_all is_read rs"
          "color_frames = length (filter has_true_color (frames_read rs))"
      by auto
    let ?q1 = "[EvSet CAP_PROP_FOURCC (of_int fourcc)] @ [EvSleep 100] @ qa @ [EvSleep 1000]"
    have e3: "extends ?st0 st3 (?q1 @ rs)"
      using extends_trans [OF extends_trans [OF extends_trans [OF extends_trans [OF e1 sleep_extends] qa(1)]
            sleep_extends] rs(1)]
      by simp
    have q1: "list_all quiet ?q1" using qa(2) by (simp add: quiet_simps)
    show ?thesis
    proof (cases "color_frames \<ge> 3")
      case False
      with assms sg True s1 r1 s2 r2 s3 r3 have res: "accepted = False" "st' = cap_release drv st3"
        by (simp_all add: try_strategy_def Let_def)
      have "trace st' = trace st @ [EvOpen (camera_id st) CAP_MSMF True] @ ?q1 @ rs @ [EvRelease]"
        using e3 t0 True res(2) by (simp add: extends_def cap_release_def log_def)
      moreover have "cap st'" "camera_id st' = camera_id st"
        using e3 c0 i0 res(2) by (simp_all add: extends_def cap_release_def log_def)
      ultimately show ?thesis
        using True res(1) False q1 rs(2,3,4)
        by (intro conjI; simp only: if_True if_False)
          (rule exI [of _ ?q1], rule exI [of _ rs], rule exI [of _ "[]"], simp)
    next
      case ge: True
      obtain r4 st4 where s4: "cap_get drv CAP_PROP_FRAME_WIDTH st3 = (r4, st4)"
        by (cases "cap_get drv CAP_PROP_FRAME_WIDTH st3")
      obtain r5 st5 where s5: "cap_get drv CAP_PROP_FRAME_HEIGHT st4 = (r5, st5)"
        by (cases "cap_get drv CAP_PROP_FRAME_HEIGHT st4")
      from assms sg True s1 r1 s2 r2 s3 r3 ge s4 obtain actual_w where r4: "r4 = Inr actual_w"
        by (cases r4) (simp_all add: try_strategy_def Let_def)
      from assms sg True s1 r1 s2 r2 s3 r3 ge s4 r4 s5 obtain actual_h where r5: "r5 = Inr actual_h"
        by (cases r5) (simp_all add: try_strategy_def Let_def)
      let ?mode = "mode_name @ '' ('' @ str_int (py_int actual_w) @ ''x'' @ str_int (py_int actual_h) @ '')''"
      let ?st5 = "st5\<lparr>current_mode := ?mode\<rparr>"
      obtain r6 st6 where s6: "configure_focus drv ?st5 = (r6, st6)"
        by (cases "configure_focus drv ?st5")
      from assms sg True s1 r1 s2 r2 s3 r3 ge s4 r4 s5 r5 s6 have res: "accepted = True" "st' = st6"
        by (cases r6; simp add: try_strategy_def Let_def)+
      from configure_focus_extends [OF s6] obtain qc where qc: "extends ?st5 st6 qc" "list_all quiet qc"
        by blast
      have m6: "current_mode st6 = ?mode" using configure_focus_mode [OF s6] by simp
      have e5: "extends st3 ?st5 [EvGet CAP_PROP_FRAME_WIDTH, EvGet CAP_PROP_FRAME_HEIGHT]"
        using cap_get_extends [OF s4] cap_get_extends [OF s5] by (simp add: extends_def)
      let ?q2 = "[EvGet CAP_PROP_FRAME_WIDTH, EvGet CAP_PROP_FRAME_HEIGHT] @ qc"
      have e6: "extends ?st0 st6 ((?q1 @ rs) @ ?q2)"
        using extends_trans [OF e3 extends_trans [OF e5 qc(1)]] .
      have q2: "list_all quiet ?q2" using qc(2) by (simp add: quiet_simps)
      have "trace st' = trace st @ [EvOpen (camera_id st) CAP_MSMF True] @ ?q1 @ rs @ ?q2"
        using e6 t0 True res(2) by (simp add: extends_def)
      moreover have "cap st'" "camera_id st' = camera_id st"
        using e6 c0 i0 res(2) by (simp_all add: extends_def)
      moreover have "\<exists>w h. current_mode st' = fst strategy @ '' ('' @ str_int w @ ''x'' @ str_int h @ '')''"
        using m6 res(2) sg by auto
      ultimately show ?thesis
        using True res(1) ge q1 q2 rs(2,3,4)
        by (intro conjI; simp only: if_True if_False)
          (rule exI [of _ ?q1], rule exI [of _ rs], rule exI [of _ ?q2], simp)
    qed
  qed
qed

lemma quiet_no_release: "list_all quiet q \<Longrightarrow> count_list q EvRelease = 0"
proof (induction q)
  case Nil
  then show ?case by simp
next
  case (Cons e q)
  then show ?case by (cases e) (simp_all add: quiet_simps)
qed

lemma reads_no_release: "list_all is_read rs \<Longrightarrow> count_list rs EvRelease = 0"
proof (induction rs)
  case Nil
  then show ?case by simp
next
  case (Cons e rs)
  then show ?case by (cases e) (simp_all add: is_read_simps)
qed

lemma count_release_append:
  "count_list (es @ fs) EvRelease = count_list es EvRelease + count_list fs EvRelease"
  by (induction es) simp_all

lemma try_strategy_outcome:
  assumes "try_strategy drv strategy st = (Inr accepted, st')"
  shows "\<exists>es. trace st' = trace st @ es
           \<and> (if drv_isOpened drv (dev (VideoCapture drv CAP_MSMF st))
               then length (filter is_read es) = 5
                    \<and> accepted = (3 \<le> length (filter has_true_color (frames_read es)))
                    \<and> count_list es EvRelease = (if accepted then 0 else 1)
                    \<and> holds_handle False es = accepted
               else filter is_read es = [] \<and> \<not> accepted \<and> count_list es EvRelease = 0
                    \<and> \<not> holds_handle False es)"
proof (cases "drv_isOpened drv (dev (VideoCapture drv CAP_MSMF st))")
  case False
  with try_strategy_shape [OF assms] show ?thesis
    by (intro exI [of _ "[EvOpen (camera_id st) CAP_MSMF False, EvSleep 500]"])
      (simp add: is_read_simps)
next
  case True
  with try_strategy_shape [OF assms] obtain q1 rs q2 where
    t: "trace st' = trace st @ [EvOpen (camera_id st) CAP_MSMF True] @ q1 @ rs
                     @ (if accepted then q2 else [EvRelease])"
    and q: "list_all quiet q1" "list_all quiet q2" and r: "length rs = 5" "list_all is_read rs"
    and a: "accepted = (3 \<le> length (filter has_true_color (frames_read rs)))"
    by auto
  define es where "es = [EvOpen (camera_id st) CAP_MSMF True] @ q1 @ rs
                          @ (if accepted then q2 else [EvRelease])"
  have "filter is_read es = rs"
    using quiet_neutral [OF q(1)] quiet_neutral [OF q(2)] reads_neutral [OF r(2)]
    by (simp add: es_def is_read_simps)
  then have n: "length (filter is_read es) = 5" using r(1) by simp
  have "frames_read es = frames_read rs"
    using quiet_neutral [OF q(1)] quiet_neutral [OF q(2)]
    by (simp add: es_def frames_read_append)
  then have a': "accepted = (3 \<le> length (filter has_true_color (frames_read es)))"
    using a by simp
  have c: "count_list es EvRelease = (if accepted then 0 else 1)"
    using quiet_no_release [OF q(1)] quiet_no_release [OF q(2)] reads_no_release [OF r(2)]
    by (simp add: es_def count_release_append)
  have h: "holds_handle False es = accepted"
    using quiet_neutral [OF q(1)] quiet_neutral [OF q(2)] reads_neutral [OF r(2)]
    by (simp add: es_def holds_handle_append)
  have t': "trace st' = trace st @ es" using t by (simp add: es_def)
  from t' n a' c h True show ?thesis by (intro exI [of _ es]) simp
qed

lemma red_frame_true_color: "has_true_color red_frame"
  by (simp add: has_true_color_def red_frame_def pixel_at_def has_true_color_pixel_def abs_u8_def Let_def)

lemma gray_frame_no_color: "\<not> has_true_color gray_frame"
  by (simp add: has_true_color_def gray_frame_def blank_frame_def pixel_at_def
      has_true_color_pixel_def abs_u8_def Let_def)

lemmas sim_eval =
  try_strategy_def VideoCapture_def cap_set_def cap_get_def cap_read_def cap_release_def sleep_def
  log_def configure_focus_def sim_driver_def sim_controller_def sim_camera_def init_def Let_def
  eval_nat_numeral red_frame_true_color gray_frame_no_color

lemma strategies_nth_4:
  "strategies ! 4 = (''640x480 (VGA)'', 640, 480, 1196444237)"
  by (simp add: strategies_def VideoWriter_fourcc_def)

lemma connect_loop_append:
  "connect_loop drv pre st = (Inr False, stK) \<Longrightarrow>
   connect_loop drv (pre @ rest) st = connect_loop drv rest stK"
proof (induction pre arbitrary: st)
  case Nil
  then show ?case by simp
next
  case (Cons c pre)
  obtain r st1 where t: "try_strategy drv c st = (r, st1)" by (cases "try_strategy drv c st")
  with Cons.prems have r: "r = Inr False" and l: "connect_loop drv pre st1 = (Inr False, stK)"
    by (auto split: sum.splits bool.splits)
  from Cons.IH [OF l] t r show ?case by simp
qed

lemma failed_attempt_trace:
  assumes "try_strategy drv c st = (Inr False, st')"
  shows "\<exists>es. trace st' = trace st @ es \<and> length (filter is_open es) = 1
            \<and> \<not> holds_handle h es"
proof (cases "drv_isOpened drv (dev (VideoCapture drv CAP_MSMF st))")
  case False
  with try_strategy_shape [OF assms] show ?thesis
    by (intro exI [of _ "[EvOpen (camera_id st) CAP_MSMF False, EvSleep 500]"])
      (simp add: is_open_simps)
next
  case True
  with try_strategy_shape [OF assms] obtain q1 rs where
    t: "trace st' = trace st @ [EvOpen (camera_id st) CAP_MSMF True] @ q1 @ rs @ [EvRelease]"
    and q: "list_all quiet q1" and r: "list_all is_read rs"
    by auto
  define es where "es = [EvOpen (camera_id st) CAP_MSMF True] @ q1 @ rs @ [EvRelease]"
  have "length (filter is_open es) = 1"
    using quiet_neutral [OF q] reads_neutral [OF r] by (simp add: es_def is_open_simps)
  moreover have "\<not> holds_handle h es"
    by (simp add: es_def holds_handle_append)
  moreover have "trace st' = trace st @ es" using t by (simp add: es_def)
  ultimately show ?thesis by blast
qed

lemma accepted_attempt_trace:
  assumes "try_strategy drv c st = (Inr True, st')"
  shows "\<exists>es. trace st' = trace st @ es \<and> length (filter is_open es) = 1
            \<and> holds_handle h es"
proof -
  have o: "drv_isOpened drv (dev (VideoCapture drv CAP_MSMF st))"
    using try_strategy_shape [OF assms] by (auto split: if_splits)
  with try_strategy_shape [OF assms] obtain q1 rs q2 where
    t: "trace st' = trace st @ [EvOpen (camera_id st) CAP_MSMF True] @ q1 @ rs @ q2"
    and q: "list_all quiet q1" "list_all quiet q2" and r: "list_all is_read rs"
    by auto
  define es where "es = [EvOpen (camera_id st) CAP_MSMF True] @ q1 @ rs @ q2"
  have "length (filter is_open es) = 1"
    using quiet_neutral [OF q(1)] quiet_neutral [OF q(2)] reads_neutral [OF r]
    by (simp add: es_def is_open_simps)
  moreover have "holds_handle h es"
    using quiet_neutral [OF q(1)] quiet_neutral [OF q(2)] reads_neutral [OF r]
    by (simp add: es_def holds_handle_append)
  moreover have "trace st' = trace st @ es" using t by (simp add: es_def)
  ultimately show ?thesis by blast
qed

lemma connect_loop_failed_trace:
  "connect_loop drv cs st = (Inr False, st') \<Longrightarrow>
   \<exists>es. trace st' = trace st @ es \<and> length (filter is_open es) = length cs
        \<and> holds_handle h es = (h \<and> cs = [])"
proof (induction cs arbitrary: st h)
  case Nil
  then show ?case by simp
next
  case (Cons c cs)
  obtain r st1 where t: "try_strategy drv c st = (r, st1)" by (cases "try_strategy drv c st")
  with Cons.prems have r: "r = Inr False" and l: "connect_loop drv cs st1 = (Inr False, st')"
    by (auto split: sum.splits bool.splits)
  from failed_attempt_trace [OF t [unfolded r], of h] obtain es1 where
    e1: "trace st1 = trace st @ es1" "length (filter is_open es1) = 1" "\<not> holds_handle h es1"
    by blast
  from Cons.IH [OF l, of False] obtain es2 where
    e2: "trace st' = trace st1 @ es2" "length (filter is_open es2) = length cs"
        "holds_handle False es2 = (False \<and> cs = [])"
    by blast
  have "trace st' = trace st @ (es1 @ es2)" using e1(1) e2(1) by simp
  moreover have "length (filter is_open (es1 @ es2)) = length (c # cs)" using e1(2) e2(2) by simp
  moreover have "holds_handle h (es1 @ es2) = (h \<and> c # cs = [])"
    using e1(3) e2(3) by (simp add: holds_handle_append)
  ultimately show ?case by blast
qed

lemma never_raises_cap_set:
  assumes "never_raises drv"
  shows "\<exists>b st'. cap_set drv p v st = (Inr b, st')"
proof -
  obtain r d where e: "drv_set drv p v (dev st) = (r, d)" by (cases "drv_set drv p v (dev st)")
  from assms have "\<not> isl (fst (drv_set drv p v (dev st)))" by (simp add: never_raises_def)
  with e obtain b where "r = Inr b" by (cases r) auto
  with e show ?thesis by (simp add: cap_set_def)
qed

lemma never_raises_cap_get:
  assumes "never_raises drv"
  shows "\<exists>x st'. cap_get drv p st = (Inr x, st')"
proof -
  from assms have "\<not> isl (drv_get drv p (dev st))" by (simp add: never_raises_def)
  then obtain x where "drv_get drv p (dev st) = Inr x" by (cases "drv_get drv p (dev st)") auto
  then show ?thesis by (simp add: cap_get_def)
qed

lemma never_raises_cap_read:
  assumes "never_raises drv"
  shows "\<exists>fo st'. cap_read drv st = (Inr fo, st')"
proof -
  obtain r d where e: "drv_read drv (dev st) = (r, d)" by (cases "drv_read drv (dev st)")
  from assms have "\<not> isl (fst (drv_read drv (dev st)))" by (simp add: never_raises_def)
  with e obtain fo where "r = Inr fo" by (cases r) auto
  with e show ?thesis by (simp add: cap_read_def)
qed

lemma never_raises_cap_set_all:
  "never_raises drv \<Longrightarrow> \<exists>st'. cap_set_all drv pvs st = (Inr (), st')"
proof (induction pvs arbitrary: st)
  case Nil
  then show ?case by simp
next
  case (Cons pv pvs)
  obtain p v where pv: "pv = (p, v)" by (cases pv)
  from never_raises_cap_set [OF Cons.prems] obtain b st1 where "cap_set drv p v st = (Inr b, st1)"
    by blast
  with Cons.IH [OF Cons.prems, of st1] pv show ?case by simp
qed

lemma never_raises_probe_frames:
  "never_raises drv \<Longrightarrow> \<exists>k' st'. probe_frames drv n k st = (Inr k', st')"
proof (induction n arbitrary: k st)
  case 0
  then show ?case by simp
next
  case (Suc n)
  from never_raises_cap_read [OF Suc.prems] obtain fo st1 where r: "cap_read drv st = (Inr fo, st1)"
    by blast
  show ?case
  proof (cases fo)
    case None
    with r Suc.IH [OF Suc.prems, of k st1] show ?thesis by simp
  next
    case (Some frame)
    with r Suc.IH [OF Suc.prems, of "if has_true_color frame then k + 1 else k" st1]
    show ?thesis by simp
  qed
qed

lemma never_raises_configure_focus:
  assumes "never_raises drv"
  shows "\<exists>st'. configure_focus drv st = (Inr (), st')"
proof -
  from never_raises_cap_set [OF assms] obtain b1 st1 where
    s1: "cap_set drv CAP_PROP_AUTOFOCUS 0 st = (Inr b1, st1)" by blast
  from never_raises_cap_set [OF assms] obtain b2 st2 where
    s2: "cap_set drv CAP_PROP_FOCUS 100 st1 = (Inr b2, st2)" by blast
  from never_raises_cap_get [OF assms] obtain x3 st3 where
    s3: "cap_get drv CAP_PROP_AUTOFOCUS (sleep 100 st2) = (Inr x3, st3)" by blast
  from never_raises_cap_get [OF assms] obtain x4 st4 where
    s4: "cap_get drv CAP_PROP_FOCUS st3 = (Inr x4, st4)" by blast
  from s1 s2 s3 s4 show ?thesis by (simp add: configure_focus_def)
qed

lemma never_raises_try_strategy:
  assumes "never_raises drv"
  shows "\<exists>b st'. try_strategy drv c st = (Inr b, st')"
proof -
  obtain mode_name width height fourcc where c: "c = (mode_name, width, height, fourcc)"
    by (cases c) auto
  let ?st0 = "VideoCapture drv CAP_MSMF st"
  from never_raises_cap_set [OF assms] obtain b1 st1 where
    s1: "cap_set drv CAP_PROP_FOURCC (of_int fourcc) ?st0 = (Inr b1, st1)" by blast
  from never_raises_cap_set_all [OF assms] obtain st2 where
    s2: "cap_set_all drv
        [(CAP_PROP_FRAME_WIDTH, of_int width), (CAP_PROP_FRAME_HEIGHT, of_int height),
         (CAP_PROP_FPS, 30), (CAP_PROP_BUFFERSIZE, 1)] (sleep 100 st1) = (Inr (), st2)" by blast
  from never_raises_probe_frames [OF assms] obtain k st3 where
    s3: "probe_frames drv 5 0 (sleep 1000 st2) = (Inr k, st3)" by blast
  from never_raises_cap_get [OF assms] obtain w st4 where
    s4: "cap_get drv CAP_PROP_FRAME_WIDTH st3 = (Inr w, st4)" by blast
  from never_raises_cap_get [OF assms] obtain h st5 where
    s5: "cap_get drv CAP_PROP_FRAME_HEIGHT st4 = (Inr h, st5)" by blast
  from never_raises_configure_focus [OF assms] obtain st6 where
    s6: "configure_focus drv (st5\<lparr>current_mode :=
            mode_name @ '' ('' @ str_int (py_int w) @ ''x'' @ str_int (py_int h) @ '')''\<rparr>) = (Inr (), st6)"
    by blast
  from s1 s2 s3 s4 s5 s6 show ?thesis
    unfolding try_strategy_def c Let_def by auto
qed

lemma never_raises_connect_loop:
  "never_raises drv \<Longrightarrow> \<exists>b st'. connect_loop drv cs st = (Inr b, st')"
proof (induction cs arbitrary: st)
  case Nil
  then show ?case by auto
next
  case (Cons c cs)
  from never_raises_try_strategy [OF Cons.prems] obtain b st1 where
    t: "try_strategy drv c st = (Inr b, st1)" by blast
  with Cons.IH [OF Cons.prems, of st1] show ?case by (cases b) auto
qed

lemma never_raises_sim: "never_raises sim_driver"
  by (simp add: never_raises_def sim_driver_def split: list.splits)

text \<open>
  Claim C2, as the code has it. Take the attempt on one strategy, when no call on the
  capture raises during it (which is so for every driver whose calls never raise). If
  the capture opens, it is probed with exactly five reads, and the strategy is accepted
  if and only if at least three of the frames read have true colour: more than half of
  the five reads tried, however many of them gave a frame. An accepted strategy keeps
  its capture, with no release; a rejected one releases its capture, once. A strategy
  whose capture does not open is rejected without a read and without a release. After
  a rejection the next strategy is tried.
\<close>

theorem probe_accepts_three_of_five:
  "(try_strategy drv strategy st = (Inr accepted, st') \<longrightarrow>
      (\<exists>es. trace st' = trace st @ es
           \<and> (if drv_isOpened drv (dev (VideoCapture drv CAP_MSMF st))
               then length (filter is_read es) = 5
                    \<and> accepted = (3 \<le> length (filter has_true_color (frames_read es)))
                    \<and> count_list es EvRelease = (if accepted then 0 else 1)
                    \<and> holds_handle False es = accepted
               else filter is_read es = [] \<and> \<not> accepted \<and> count_list es EvRelease = 0
                    \<and> \<not> holds_handle False es))
      \<and> (\<not> accepted \<longrightarrow> connect_loop drv (strategy # rest) st = connect_loop drv rest st'))
   \<and> (never_raises drv \<longrightarrow> (\<exists>accepted st'. try_strategy drv strategy st = (Inr accepted, st')))"
proof (intro conjI impI)
  assume r: "try_strategy drv strategy st = (Inr accepted, st')"
  from try_strategy_outcome [OF r]
  show "\<exists>es. trace st' = trace st @ es
           \<and> (if drv_isOpened drv (dev (VideoCapture drv CAP_MSMF st))
               then length (filter is_read es) = 5
                    \<and> accepted = (3 \<le> length (filter has_true_color (frames_read es)))
                    \<and> count_list es EvRelease = (if accepted then 0 else 1)
                    \<and> holds_handle False es = accepted
               else filter is_read es = [] \<and> \<not> accepted \<and> count_list es EvRelease = 0
                    \<and> \<not> holds_handle False es)" .
  assume "\<not> accepted"
  with r show "connect_loop drv (strategy # rest) st = connect_loop drv rest st'" by simp
next
  assume "never_raises drv"
  then show "\<exists>accepted st'. try_strategy drv strategy st = (Inr accepted, st')"
    by (rule never_raises_try_strategy)
qed

text \<open>
  Three of five frames read have true colour: accepted, nothing released. No frame
  read at all: rejected, the capture released, and the rest of the list is tried. A
  capture that does not open: rejected, no read.
\<close>

theorem probe_accepts_three_of_five_witness:
  "(\<exists>es. trace (snd (try_strategy sim_driver (strategies ! 4)
                 (sim_controller [True] [Some red_frame, Some gray_frame, Some red_frame, None, Some red_frame])))
          = es
       \<and> length (filter is_read es) = 5 \<and> 3 \<le> length (filter has_true_color (frames_read es))
       \<and> count_list es EvRelease = 0 \<and> holds_handle False es)
   \<and> (\<exists>es. trace (snd (try_strategy sim_driver (strategies ! 4) (sim_controller [True] []))) = es
       \<and> length (filter is_read es) = 5 \<and> \<not> 3 \<le> length (filter has_true_color (frames_read es))
       \<and> count_list es EvRelease = 1 \<and> \<not> holds_handle False es
       \<and> connect_loop sim_driver (strategies ! 4 # drop 5 strategies) (sim_controller [True] [])
           = connect_loop sim_driver (drop 5 strategies)
               (snd (try_strategy sim_driver (strategies ! 4) (sim_controller [True] []))))
   \<and> (\<exists>es. trace (snd (try_strategy sim_driver (strategies ! 4) (sim_controller [False] []))) = es
       \<and> filter is_read es = [] \<and> count_list es EvRelease = 0)
   \<and> never_raises sim_driver
   \<and> (\<exists>accepted st'. try_strategy sim_driver (strategies ! 4) (sim_controller [True] [])
                         = (Inr accepted, st'))"
proof -
  let ?s = "strategies ! 4"
  let ?st1 = "sim_controller [True] [Some red_frame, Some gray_frame, Some red_frame, None, Some red_frame]"
  let ?st2 = "sim_controller [True] []"
  let ?st3 = "sim_controller [False] []"
  have r1: "try_strategy sim_driver ?s ?st1 = (Inr True, snd (try_strategy sim_driver ?s ?st1))"
    and r2: "try_strategy sim_driver ?s ?st2 = (Inr False, snd (try_strategy sim_driver ?s ?st2))"
    and r3: "try_strategy sim_driver ?s ?st3 = (Inr False, snd (try_strategy sim_driver ?s ?st3))"
    unfolding strategies_nth_4 by (simp_all add: sim_eval)
  have o: "drv_isOpened sim_driver (dev (VideoCapture sim_driver CAP_MSMF ?st1))"
    "drv_isOpened sim_driver (dev (VideoCapture sim_driver CAP_MSMF ?st2))"
    "\<not> drv_isOpened sim_driver (dev (VideoCapture sim_driver CAP_MSMF ?st3))"
    and t: "trace ?st1 = []" "trace ?st2 = []" "trace ?st3 = []"
    by (simp_all add: sim_eval)
  note w1 = probe_accepts_three_of_five [where rest = "[]", THEN conjunct1, rule_format, OF r1]
  note w2 = probe_accepts_three_of_five [where rest = "drop 5 strategies", THEN conjunct1,
      rule_format, OF r2]
  note w3 = probe_accepts_three_of_five [where rest = "[]", THEN conjunct1, rule_format, OF r3]
  note w4 = probe_accepts_three_of_five [where drv = sim_driver and strategy = ?s and st = ?st2,
      THEN conjunct2, rule_format, OF never_raises_sim]
  from w1 w2 w3 w4 never_raises_sim o t show ?thesis by simp
qed

text \<open>
  Against claim C2 as stated: two frames are read, both have true colour, and the
  three other reads fail. Every frame read has true colour, which is more than half of
  the frames read, and the strategy is rejected.
\<close>

theorem two_of_two_rejected_counterexample:
  "fst (try_strategy sim_driver (strategies ! 4)
          (sim_controller [True] [Some red_frame, Some red_frame, None, None, None])) = Inr False
   \<and> frames_read (trace (snd (try_strategy sim_driver (strategies ! 4)
          (sim_controller [True] [Some red_frame, Some red_frame, None, None, None]))))
       = [red_frame, red_frame]
   \<and> filter has_true_color (frames_read (trace (snd (try_strategy sim_driver (strategies ! 4)
          (sim_controller [True] [Some red_frame, Some red_frame, None, None, None])))))
       = [red_frame, red_frame]"
  unfolding strategies_nth_4 by (simp add: sim_eval)

text \<open>
  How \<open>connect\<close> goes when no call on the capture raises. If the loop over the first
  K strategies ends without one accepted (each of them did not open, or failed its probe) and the next strategy is accepted (it opened
  and at least three of its five probe reads gave a frame with true colour), then
  \<open>connect\<close> returns \<open>True\<close> in the state that this strategy left: \<open>self.cap\<close> is its
  capture, still held, \<open>current_mode\<close> starts with its name, and K + 1 captures were
  opened in all, so that no later strategy was tried. If the loop over the whole list
  ends without one accepted, every strategy was tried, no opened capture is held at the
  end, and the outcome is the value \<open>False\<close>. When no call of the driver raises,
  \<open>connect\<close> always returns a value.
\<close>

theorem connect_returns_first_accepted:
  "(connect_loop drv pre st = (Inr False, stK) \<and> try_strategy drv c stK = (Inr True, st')
      \<longrightarrow> connect_loop drv (pre @ c # post) st = (Inr True, st') \<and> cap st'
          \<and> (\<exists>w h. current_mode st' = fst c @ '' ('' @ str_int w @ ''x'' @ str_int h @ '')'')
          \<and> (\<exists>es. trace st' = trace st @ es \<and> length (filter is_open es) = length pre + 1
                 \<and> holds_handle False es))
   \<and> (connect_loop drv cs st = (Inr False, st')
      \<longrightarrow> (\<exists>es. trace st' = trace st @ es \<and> length (filter is_open es) = length cs
                 \<and> \<not> holds_handle False es))
   \<and> (never_raises drv \<longrightarrow> (\<exists>b st'. connect_loop drv cs st = (Inr b, st')))"
proof (intro conjI impI)
  assume h: "connect_loop drv pre st = (Inr False, stK) \<and> try_strategy drv c stK = (Inr True, st')"
  then have p: "connect_loop drv pre st = (Inr False, stK)"
    and t: "try_strategy drv c stK = (Inr True, st')" by simp_all
  from connect_loop_append [OF p, of "c # post"] t
  show "connect_loop drv (pre @ c # post) st = (Inr True, st')" by simp
  from try_strategy_shape [OF t] show "cap st'" by simp
  from try_strategy_shape [OF t]
  show "\<exists>w h. current_mode st' = fst c @ '' ('' @ str_int w @ ''x'' @ str_int h @ '')''"
    by (auto split: if_splits)
  from connect_loop_failed_trace [OF p, of False] obtain es1 where
    e1: "trace stK = trace st @ es1" "length (filter is_open es1) = length pre"
        "\<not> holds_handle False es1" by auto
  from accepted_attempt_trace [OF t, of False] obtain es2 where
    e2: "trace st' = trace stK @ es2" "length (filter is_open es2) = 1" "holds_handle False es2"
    by blast
  have "trace st' = trace st @ (es1 @ es2)" using e1(1) e2(1) by simp
  moreover have "length (filter is_open (es1 @ es2)) = length pre + 1" using e1(2) e2(2) by simp
  moreover have "holds_handle False (es1 @ es2)" using e1(3) e2(3) by (simp add: holds_handle_append)
  ultimately show "\<exists>es. trace st' = trace st @ es \<and> length (filter is_open es) = length pre + 1
                 \<and> holds_handle False es" by blast
next
  assume "connect_loop drv cs st = (Inr False, st')"
  from connect_loop_failed_trace [OF this, of False]
  show "\<exists>es. trace st' = trace st @ es \<and> length (filter is_open es) = length cs
                 \<and> \<not> holds_handle False es" by auto
next
  assume "never_raises drv"
  then show "\<exists>b st'. connect_loop drv cs st = (Inr b, st')" by (rule never_raises_connect_loop)
qed

lemma sim_pre:
  "fst (connect_loop sim_driver (take 2 strategies) sim_story) = Inr False"
  by (simp add: strategies_def sim_story_def sim_eval)

lemma sim_acc:
  "fst (try_strategy sim_driver (strategies ! 2) (snd (connect_loop sim_driver (take 2 strategies) sim_story)))
     = Inr True"
  by (simp add: strategies_def sim_story_def sim_eval)

lemma sim_fail: "fst (connect sim_driver (sim_controller [] [])) = Inr False"
  by (simp add: connect_def strategies_def sim_eval)

theorem connect_returns_first_accepted_witness:
  "fst (connect sim_driver sim_story) = Inr True
   \<and> (\<exists>w h. current_mode (snd (connect sim_driver sim_story))
              = ''1920x1080 (FHD)'' @ '' ('' @ str_int w @ ''x'' @ str_int h @ '')'')
   \<and> (\<exists>es. trace (snd (connect sim_driver sim_story)) = es \<and> length (filter is_open es) = 3
          \<and> holds_handle False es)
   \<and> (\<exists>es. trace (snd (connect sim_driver (sim_controller [] []))) = es
          \<and> length (filter is_open es) = 7 \<and> \<not> holds_handle False es)
   \<and> (\<exists>b st'. connect sim_driver sim_story = (Inr b, st'))"
proof -
  let ?pre = "take 2 strategies" and ?c = "strategies ! 2" and ?post = "drop 3 strategies"
  let ?stK = "snd (connect_loop sim_driver ?pre sim_story)"
  let ?st' = "snd (try_strategy sim_driver ?c ?stK)"
  let ?stF = "snd (connect sim_driver (sim_controller [] []))"
  have s: "strategies = ?pre @ ?c # ?post" by (simp add: strategies_def)
  have p: "connect_loop sim_driver ?pre sim_story = (Inr False, ?stK)"
    using sim_pre by (simp add: prod_eq_iff)
  have a: "try_strategy sim_driver ?c ?stK = (Inr True, ?st')"
    using sim_acc by (simp add: prod_eq_iff)
  have f: "connect_loop sim_driver strategies (sim_controller [] []) = (Inr False, ?stF)"
    using sim_fail by (simp add: prod_eq_iff connect_def)
  have t: "trace sim_story = []" "trace (sim_controller [] []) = []"
    by (simp_all add: sim_story_def sim_controller_def init_def)
  have n: "fst ?c = ''1920x1080 (FHD)''" "length ?pre = 2" "length strategies = 7"
    by (simp_all add: strategies_def)
  note A = connect_returns_first_accepted [where drv = sim_driver and pre = ?pre and st = sim_story
      and stK = ?stK and c = ?c and st' = ?st' and post = ?post,
      THEN conjunct1, rule_format, OF conjI [OF p a]]
  note B = connect_returns_first_accepted [where drv = sim_driver and st' = ?stF and cs = strategies
      and st = "sim_controller [] []",
      THEN conjunct2, THEN conjunct1, rule_format, OF f]
  note C = connect_returns_first_accepted [where drv = sim_driver and cs = strategies and st = sim_story,
      THEN conjunct2, THEN conjunct2, rule_format, OF never_raises_sim]
  have r: "connect sim_driver sim_story = (Inr True, ?st')"
    using A s by (simp add: connect_def)
  from A B C r t n show ?thesis by (simp add: connect_def)
qed

lemmas faulty_eval = sim_eval faulty_driver_def

text \<open>
  Claim C5, at an input where the code breaks it. The camera opens, and the first read
  of the probe raises. \<open>connect\<close> has no \<open>try\<close>: the exception leaves \<open>connect\<close>, so that
  no outcome is returned, and the capture that was opened is still held and opened,
  with no release in the trace.
\<close>

theorem connect_raises_with_capture_held:
  "fst (connect faulty_driver (sim_controller [True] [])) = Inl CvError
   \<and> holds_handle False (trace (snd (connect faulty_driver (sim_controller [True] []))))
   \<and> count_list (trace (snd (connect faulty_driver (sim_controller [True] [])))) EvRelease = 0
   \<and> drv_isOpened faulty_driver (dev (snd (connect faulty_driver (sim_controller [True] []))))
   \<and> length (filter is_open (trace (snd (connect faulty_driver (sim_controller [True] []))))) = 1"
  by (simp add: connect_def strategies_def faulty_eval is_open_simps)

end
